theory Spec2Isabelle
  imports Complex_Main
begin

section \<open>Tabular temporal-difference control: the model of algorithms.py\<close>

text \<open>
  The module holds five functions: \<open>zero_value\<close>, \<open>egreedy_policy\<close>, \<open>sarsa\<close>,
  \<open>qlearning\<close> and \<open>double_qlearning\<close>. Tables are numpy arrays of shape
  \<open>(nS, nA)\<close>, modelled as lists of rows. Table entries, rewards and the parameters
  alpha, gamma, epsilon are numpy/Python floats; they are modelled as real numbers, so
  rounding is not part of this development. States, actions and the episode count are
  Python integers, modelled as \<open>int\<close>, with numpy's indexing rule written out
  (an index \<open>i\<close> with \<open>-n \<le> i < 0\<close> counts from the end, anything outside
  \<open>[-n, n)\<close> raises IndexError).
\<close>

subsection \<open>Errors and the exception-propagating bind\<close>

datatype error = IndexError | ValueError

definition bind_err :: "error + 'a \<Rightarrow> ('a \<Rightarrow> error + 'b) \<Rightarrow> error + 'b" where
  "bind_err m f = (case m of Inl e \<Rightarrow> Inl e | Inr x \<Rightarrow> f x)"

subsection \<open>The shared random source\<close>

text \<open>
  \<open>np.random\<close> is one global generator. It is a tape read at a position:
  \<open>floats g k\<close> is what the \<open>k\<close>-th draw returns when it is \<open>np.random.rand()\<close>,
  \<open>choices g k n\<close> determines what it returns when it is \<open>np.random.choice\<close> over
  \<open>n\<close> indices. Every call consumes one position.
\<close>

record rng =
  floats :: "nat \<Rightarrow> real"
  choices :: "nat \<Rightarrow> nat \<Rightarrow> nat"
  consumed :: nat

definition advance :: "rng \<Rightarrow> rng" where
  "advance g = g\<lparr>consumed := Suc (consumed g)\<rparr>"

definition rand :: "rng \<Rightarrow> real \<times> rng" where
  "rand g = (floats g (consumed g), advance g)"

definition choice :: "nat \<Rightarrow> rng \<Rightarrow> error + (nat \<times> rng)" where
  \<comment> \<open>\<open>np.random.choice(np.arange(n))\<close>: ValueError on an empty array\<close>
  "choice n g =
     (if n = 0 then Inl ValueError
      else Inr (choices g (consumed g) n mod n, advance g))"

subsection \<open>Tables and numpy indexing\<close>

type_synonym table = "real list list"

definition norm_index :: "nat \<Rightarrow> int \<Rightarrow> error + nat" where
  "norm_index n i =
     (if 0 \<le> i \<and> i < int n then Inr (nat i)
      else if - int n \<le> i \<and> i < 0 then Inr (nat (int n + i))
      else Inl IndexError)"

definition get_row :: "table \<Rightarrow> int \<Rightarrow> error + real list" where
  \<comment> \<open>\<open>Q[s]\<close>\<close>
  "get_row Q s = bind_err (norm_index (length Q) s) (\<lambda>i. Inr (Q ! i))"

definition get_item :: "table \<Rightarrow> int \<Rightarrow> int \<Rightarrow> error + real" where
  \<comment> \<open>\<open>Q[s][a]\<close> and \<open>Q[s, a]\<close>\<close>
  "get_item Q s a =
     bind_err (get_row Q s) (\<lambda>row.
     bind_err (norm_index (length row) a) (\<lambda>j. Inr (row ! j)))"

definition add_item :: "table \<Rightarrow> int \<Rightarrow> int \<Rightarrow> real \<Rightarrow> error + table" where
  \<comment> \<open>\<open>Q[s][a] += v\<close>, in place\<close>
  "add_item Q s a v =
     bind_err (norm_index (length Q) s) (\<lambda>i.
     bind_err (norm_index (length (Q ! i)) a) (\<lambda>j.
       Inr (Q[i := (Q ! i)[j := Q ! i ! j + v]])))"

fun argmax_scan :: "real list \<Rightarrow> nat \<Rightarrow> nat \<Rightarrow> real \<Rightarrow> nat" where
  "argmax_scan [] i mi mp = mi"
| "argmax_scan (x # xs) i mi mp =
     (if x > mp then argmax_scan xs (Suc i) i x else argmax_scan xs (Suc i) mi mp)"

definition np_argmax :: "real list \<Rightarrow> error + nat" where
  \<comment> \<open>\<open>np.argmax(row)\<close>: a left-to-right scan that keeps the best index so far and
      replaces it only on a strictly greater entry; ValueError on an empty row\<close>
  "np_argmax row = (case row of [] \<Rightarrow> Inl ValueError | x # xs \<Rightarrow> Inr (argmax_scan xs 1 0 x))"

definition table_add :: "table \<Rightarrow> table \<Rightarrow> table" where
  \<comment> \<open>\<open>Q1 + Q2\<close> on arrays of one shape\<close>
  "table_add A B = map2 (map2 (+)) A B"

definition table_div :: "table \<Rightarrow> real \<Rightarrow> table" where
  \<comment> \<open>\<open>Q / c\<close>\<close>
  "table_div A c = map (map (\<lambda>x. x / c)) A"

definition table_shape :: "nat \<Rightarrow> nat \<Rightarrow> table \<Rightarrow> bool" where
  "table_shape n m Q = (length Q = n \<and> list_all (\<lambda>row. length row = m) Q)"

subsection \<open>The environment\<close>

text \<open>
  A gym environment is an object with hidden state of some type \<open>'e\<close>; \<open>reset\<close> and
  \<open>step\<close> read and change it. \<open>step\<close> returns \<open>(next_state, reward, done)\<close>; its
  fourth component is dropped by every caller and is left out.
\<close>

record 'e env =
  nS :: int
  nA :: int
  reset :: "'e \<Rightarrow> int \<times> 'e"
  step :: "'e \<Rightarrow> int \<Rightarrow> (int \<times> real \<times> bool) \<times> 'e"

definition zero_value :: "'e env \<Rightarrow> error + table" where
  \<comment> \<open>\<open>np.zeros((env.nS, env.nA))\<close>: ValueError on a negative dimension\<close>
  "zero_value env =
     (if nS env < 0 \<or> nA env < 0 then Inl ValueError
      else Inr (replicate (nat (nS env)) (replicate (nat (nA env)) 0)))"

subsection \<open>The epsilon-greedy policy\<close>

definition egreedy_policy :: "int \<Rightarrow> table \<Rightarrow> real \<Rightarrow> rng \<Rightarrow> error + (int \<times> rng)" where
  "egreedy_policy s Q epsilon g =
     (let (random, g1) = rand g in
      if random < epsilon then
        bind_err (get_row Q s) (\<lambda>row.
        bind_err (choice (length row) g1) (\<lambda>(k, g2). Inr (int k, g2)))
      else
        bind_err (get_row Q s) (\<lambda>row.
        bind_err (np_argmax row) (\<lambda>k. Inr (int k, g1))))"

subsection \<open>The two loop forms\<close>

text \<open>
  \<open>while True: body; if done: break\<close>. The environment decides when an episode ends,
  so the loop need not return: \<open>None\<close> is the run that never leaves it.
\<close>

partial_function (option) while_true :: "('s \<Rightarrow> error + ('s \<times> bool)) \<Rightarrow> 's \<Rightarrow> (error + 's) option" where
  "while_true body st =
     (case body st of
        Inl e \<Rightarrow> Some (Inl e)
      | Inr (st', done) \<Rightarrow> if done then Some (Inr st') else while_true body st')"

text \<open>\<open>for t in ts: body\<close>, stopping at the first exception or at a body that never returns.\<close>

fun for_each :: "(nat \<Rightarrow> 's \<Rightarrow> (error + 's) option) \<Rightarrow> nat list \<Rightarrow> 's \<Rightarrow> (error + 's) option" where
  "for_each body [] st = Some (Inr st)"
| "for_each body (t # ts) st =
     (case body t st of
        None \<Rightarrow> None
      | Some (Inl e) \<Rightarrow> Some (Inl e)
      | Some (Inr st') \<Rightarrow> for_each body ts st')"

definition add_at :: "real list \<Rightarrow> nat \<Rightarrow> real \<Rightarrow> error + real list" where
  \<comment> \<open>\<open>sum_rewards[t] += reward\<close> on a Python list, \<open>t\<close> from \<open>range\<close>\<close>
  "add_at xs t r = (if t < length xs then Inr (xs[t := xs ! t + r]) else Inl IndexError)"

subsection \<open>SARSA\<close>

text \<open>
  The local variables of \<open>sarsa\<close>, with the two objects it changes behind the scenes:
  the environment's hidden state and the random source. \<open>state_s\<close> and \<open>action_s\<close>
  are assigned at the start of every episode before they are read.
\<close>

record 'e sarsa_vars =
  env_s :: 'e
  rng_s :: rng
  Q_s :: table
  state_s :: int
  action_s :: int
  sum_rewards_s :: "real list"

definition sarsa_step ::
  "'e env \<Rightarrow> real \<Rightarrow> real \<Rightarrow> real \<Rightarrow> nat \<Rightarrow> 'e sarsa_vars \<Rightarrow> error + ('e sarsa_vars \<times> bool)" where
  \<comment> \<open>one pass through the body of \<open>while True\<close> in episode \<open>t\<close>\<close>
  "sarsa_step env alpha gamma epsilon t v =
     (let ((next_state, reward, done), e') = step env (env_s v) (action_s v) in
      bind_err (egreedy_policy next_state (Q_s v) epsilon (rng_s v)) (\<lambda>(next_action, g').
      bind_err (get_item (Q_s v) next_state next_action) (\<lambda>nxt.
      bind_err (get_item (Q_s v) (state_s v) (action_s v)) (\<lambda>cur.
      bind_err (add_item (Q_s v) (state_s v) (action_s v) (alpha * (reward + gamma * nxt - cur))) (\<lambda>Q'.
      bind_err (add_at (sum_rewards_s v) t reward) (\<lambda>rs.
        Inr (v\<lparr>env_s := e', rng_s := g', Q_s := Q', state_s := next_state,
                action_s := next_action, sum_rewards_s := rs\<rparr>, done)))))))"

definition sarsa_episode ::
  "'e env \<Rightarrow> real \<Rightarrow> real \<Rightarrow> real \<Rightarrow> nat \<Rightarrow> 'e sarsa_vars \<Rightarrow> (error + 'e sarsa_vars) option" where
  \<comment> \<open>the body of \<open>for t in range(num_episodes)\<close>\<close>
  "sarsa_episode env alpha gamma epsilon t v =
     (let rs = sum_rewards_s v @ [0];
          (state, e1) = reset env (env_s v) in
      case egreedy_policy state (Q_s v) epsilon (rng_s v) of
        Inl err \<Rightarrow> Some (Inl err)
      | Inr (action, g1) \<Rightarrow>
          while_true (sarsa_step env alpha gamma epsilon t)
            (v\<lparr>env_s := e1, rng_s := g1, state_s := state, action_s := action,
               sum_rewards_s := rs\<rparr>))"

definition sarsa ::
  "'e env \<Rightarrow> 'e \<Rightarrow> rng \<Rightarrow> real \<Rightarrow> real \<Rightarrow> real \<Rightarrow> int \<Rightarrow> (error + (table \<times> real list)) option" where
  \<comment> \<open>\<open>sarsa(env, alpha, gamma, epsilon, num_episodes)\<close> run with the environment in
      state \<open>e\<close> and the random source in state \<open>g\<close>\<close>
  "sarsa env e g alpha gamma epsilon num_episodes =
     (case zero_value env of
        Inl err \<Rightarrow> Some (Inl err)
      | Inr Q0 \<Rightarrow>
          (case for_each (sarsa_episode env alpha gamma epsilon) [0..<nat num_episodes]
                  \<lparr>env_s = e, rng_s = g, Q_s = Q0, state_s = 0, action_s = 0, sum_rewards_s = []\<rparr> of
             None \<Rightarrow> None
           | Some (Inl err) \<Rightarrow> Some (Inl err)
           | Some (Inr v) \<Rightarrow> Some (Inr (Q_s v, sum_rewards_s v))))"

subsection \<open>Q-learning\<close>

record 'e qlearning_vars =
  env_q :: 'e
  rng_q :: rng
  Q_q :: table
  state_q :: int
  sum_rewards_q :: "real list"

definition qlearning_step ::
  "'e env \<Rightarrow> real \<Rightarrow> real \<Rightarrow> real \<Rightarrow> nat \<Rightarrow> 'e qlearning_vars \<Rightarrow> error + ('e qlearning_vars \<times> bool)" where
  "qlearning_step env alpha gamma epsilon t v =
     bind_err (egreedy_policy (state_q v) (Q_q v) epsilon (rng_q v)) (\<lambda>(action, g').
     (let ((next_state, reward, done), e') = step env (env_q v) action in
      bind_err (get_row (Q_q v) next_state) (\<lambda>row.
      bind_err (np_argmax row) (\<lambda>next_action.
      bind_err (get_item (Q_q v) next_state (int next_action)) (\<lambda>nxt.
      bind_err (get_item (Q_q v) (state_q v) action) (\<lambda>cur.
      bind_err (add_item (Q_q v) (state_q v) action (alpha * (reward + gamma * nxt - cur))) (\<lambda>Q'.
      bind_err (add_at (sum_rewards_q v) t reward) (\<lambda>rs.
        Inr (v\<lparr>env_q := e', rng_q := g', Q_q := Q', state_q := next_state,
                sum_rewards_q := rs\<rparr>, done)))))))))"

definition qlearning_episode ::
  "'e env \<Rightarrow> real \<Rightarrow> real \<Rightarrow> real \<Rightarrow> nat \<Rightarrow> 'e qlearning_vars \<Rightarrow> (error + 'e qlearning_vars) option" where
  "qlearning_episode env alpha gamma epsilon t v =
     (let rs = sum_rewards_q v @ [0];
          (state, e1) = reset env (env_q v) in
      while_true (qlearning_step env alpha gamma epsilon t)
        (v\<lparr>env_q := e1, state_q := state, sum_rewards_q := rs\<rparr>))"

definition qlearning ::
  "'e env \<Rightarrow> 'e \<Rightarrow> rng \<Rightarrow> real \<Rightarrow> real \<Rightarrow> real \<Rightarrow> int \<Rightarrow> (error + (table \<times> real list)) option" where
  "qlearning env e g alpha gamma epsilon num_episodes =
     (case zero_value env of
        Inl err \<Rightarrow> Some (Inl err)
      | Inr Q0 \<Rightarrow>
          (case for_each (qlearning_episode env alpha gamma epsilon) [0..<nat num_episodes]
                  \<lparr>env_q = e, rng_q = g, Q_q = Q0, state_q = 0, sum_rewards_q = []\<rparr> of
             None \<Rightarrow> None
           | Some (Inl err) \<Rightarrow> Some (Inl err)
           | Some (Inr v) \<Rightarrow> Some (Inr (Q_q v, sum_rewards_q v))))"

subsection \<open>Double Q-learning\<close>

record 'e double_vars =
  env_d :: 'e
  rng_d :: rng
  Q1_d :: table
  Q2_d :: table
  state_d :: int
  sum_rewards_d :: "real list"

definition double_qlearning_step ::
  "'e env \<Rightarrow> real \<Rightarrow> real \<Rightarrow> real \<Rightarrow> nat \<Rightarrow> 'e double_vars \<Rightarrow> error + ('e double_vars \<times> bool)" where
  "double_qlearning_step env alpha gamma epsilon t v =
     bind_err (egreedy_policy (state_d v) (table_add (Q1_d v) (Q2_d v)) epsilon (rng_d v)) (\<lambda>(action, g1).
     (let ((next_state, reward, done), e') = step env (env_d v) action;
          (coin, g2) = rand g1 in
      if coin < 0.5 then
        bind_err (get_row (Q1_d v) next_state) (\<lambda>row.
        bind_err (np_argmax row) (\<lambda>next_action.
        bind_err (get_item (Q2_d v) next_state (int next_action)) (\<lambda>nxt.
        bind_err (get_item (Q1_d v) (state_d v) action) (\<lambda>cur.
        bind_err (add_item (Q1_d v) (state_d v) action (alpha * (reward + gamma * nxt - cur))) (\<lambda>Q1'.
        bind_err (add_at (sum_rewards_d v) t reward) (\<lambda>rs.
          Inr (v\<lparr>env_d := e', rng_d := g2, Q1_d := Q1', state_d := next_state,
                  sum_rewards_d := rs\<rparr>, done)))))))
      else
        bind_err (get_row (Q2_d v) next_state) (\<lambda>row.
        bind_err (np_argmax row) (\<lambda>next_action.
        bind_err (get_item (Q1_d v) next_state (int next_action)) (\<lambda>nxt.
        bind_err (get_item (Q2_d v) (state_d v) action) (\<lambda>cur.
        bind_err (add_item (Q2_d v) (state_d v) action (alpha * (reward + gamma * nxt - cur))) (\<lambda>Q2'.
        bind_err (add_at (sum_rewards_d v) t reward) (\<lambda>rs.
          Inr (v\<lparr>env_d := e', rng_d := g2, Q2_d := Q2', state_d := next_state,
                  sum_rewards_d := rs\<rparr>, done)))))))))"

definition double_qlearning_episode ::
  "'e env \<Rightarrow> real \<Rightarrow> real \<Rightarrow> real \<Rightarrow> nat \<Rightarrow> 'e double_vars \<Rightarrow> (error + 'e double_vars) option" where
  "double_qlearning_episode env alpha gamma epsilon t v =
     (let rs = sum_rewards_d v @ [0];
          (state, e1) = reset env (env_d v) in
      while_true (double_qlearning_step env alpha gamma epsilon t)
        (v\<lparr>env_d := e1, state_d := state, sum_rewards_d := rs\<rparr>))"

definition double_qlearning ::
  "'e env \<Rightarrow> 'e \<Rightarrow> rng \<Rightarrow> real \<Rightarrow> real \<Rightarrow> real \<Rightarrow> int \<Rightarrow> (error + (table \<times> real list)) option" where
  "double_qlearning env e g alpha gamma epsilon num_episodes =
     (case zero_value env of
        Inl err \<Rightarrow> Some (Inl err)
      | Inr Q0 \<Rightarrow>
          (case for_each (double_qlearning_episode env alpha gamma epsilon) [0..<nat num_episodes]
                  \<lparr>env_d = e, rng_d = g, Q1_d = Q0, Q2_d = Q0, state_d = 0, sum_rewards_d = []\<rparr> of
             None \<Rightarrow> None
           | Some (Inl err) \<Rightarrow> Some (Inl err)
           | Some (Inr v) \<Rightarrow>
               Some (Inr (table_div (table_add (Q1_d v) (Q2_d v)) 2, sum_rewards_d v))))"

subsection \<open>The two-state scenario\<close>

text \<open>
  A deterministic environment with two states and two actions: in state 0, action 0
  moves to state 1 with reward 1 and ends the episode, action 1 stays in state 0 with
  reward 0 and does not end it. Its hidden state is the current state; from state 1
  every action stays there and ends the episode.
\<close>

definition two_state_env :: "int env" where
  "two_state_env =
     \<lparr>nS = 2, nA = 2,
      reset = (\<lambda>e. (0, 0)),
      step = (\<lambda>e a. if e = 0 \<and> a = 0 then ((1, 1, True), 1)
                     else if e = 0 then ((0, 0, False), 0)
                     else ((e, 0, True), e))\<rparr>"

text \<open>
  What the scenario asks of an environment started in hidden state \<open>e\<close>: two states,
  two actions, \<open>reset\<close> gives state 0, and from there action 0 leads to state 1 with
  reward 1 and done, action 1 to state 0 with reward 0 and not done.
\<close>

definition scenario :: "'e env \<Rightarrow> 'e \<Rightarrow> bool" where
  "scenario env e =
     (nS env = 2 \<and> nA env = 2 \<and> fst (reset env e) = 0 \<and>
      fst (step env (snd (reset env e)) 0) = (1, 1, True) \<and>
      fst (step env (snd (reset env e)) 1) = (0, 0, False))"

definition const_rng :: "real \<Rightarrow> nat \<Rightarrow> rng" where
  \<comment> \<open>a random source whose every \<open>rand()\<close> is \<open>u\<close> and every \<open>choice\<close> is index \<open>k\<close>\<close>
  "const_rng u k = \<lparr>floats = (\<lambda>i. u), choices = (\<lambda>i n. k), consumed = 0\<rparr>"

subsection \<open>Environments whose episodes end\<close>

text \<open>
  The contract of the environment: a positive number of actions, \<open>reset\<close> and \<open>step\<close>
  (on an action in range) return a state in range, and \<open>step\<close> eventually signals
  completion, whatever the actions: some measure \<open>fuel\<close> of the hidden state drops on
  every step that does not end the episode.
\<close>

definition episodic_env :: "'e env \<Rightarrow> ('e \<Rightarrow> nat) \<Rightarrow> bool" where
  "episodic_env env fuel =
     (0 < nA env \<and>
      (\<forall>e. 0 \<le> fst (reset env e) \<and> fst (reset env e) < nS env) \<and>
      (\<forall>e a. 0 \<le> a \<and> a < nA env \<longrightarrow>
         (case step env e a of ((s', r, d), e') \<Rightarrow>
            0 \<le> s' \<and> s' < nS env \<and> (\<not> d \<longrightarrow> fuel e' < fuel e))))"

text \<open>
  A three-state chain: every action moves one state to the right, and reaching state 2
  pays reward 1 and ends the episode.
\<close>

definition chain_env :: "nat env" where
  "chain_env =
     \<lparr>nS = 3, nA = 2,
      reset = (\<lambda>e. (0, 0)),
      step = (\<lambda>e a. if 2 \<le> e + 1 then ((2, 1, True), 2) else ((int (e + 1), 0, False), e + 1))\<rparr>"

text \<open>
  The same contract without the promise that episodes end: a positive number of
  actions, and \<open>reset\<close> and \<open>step\<close> (on an action in range) return a state in range.
\<close>

definition indexed_env :: "'e env \<Rightarrow> bool" where
  "indexed_env env =
     (0 < nA env \<and>
      (\<forall>e. 0 \<le> fst (reset env e) \<and> fst (reset env e) < nS env) \<and>
      (\<forall>e a. 0 \<le> a \<and> a < nA env \<longrightarrow>
         0 \<le> fst (fst (step env e a)) \<and> fst (fst (step env e a)) < nS env))"

text \<open>An environment with one state and one action whose episodes never end.\<close>

definition stay_env :: "unit env" where
  "stay_env = \<lparr>nS = 1, nA = 1, reset = (\<lambda>e. (0, e)), step = (\<lambda>e a. ((0, 0, False), e))\<rparr>"

section \<open>Properties\<close>

subsection \<open>Indexing and argmax\<close>

lemma bind_err_Inr: "bind_err m f = Inr y \<Longrightarrow> \<exists>x. m = Inr x \<and> f x = Inr y"
  by (cases m) (simp_all add: bind_err_def)

lemma argmax_scan_spec:
  assumes "length pre = i" "mi < i" "pre ! mi = mp" "\<forall>j<i. pre ! j \<le> mp" "\<forall>j<mi. pre ! j < mp"
  shows "argmax_scan xs i mi mp < length (pre @ xs) \<and>
         (\<forall>j<length (pre @ xs). (pre @ xs) ! j \<le> (pre @ xs) ! argmax_scan xs i mi mp) \<and>
         (\<forall>j<argmax_scan xs i mi mp. (pre @ xs) ! j < (pre @ xs) ! argmax_scan xs i mi mp)"
  using assms
proof (induction xs arbitrary: pre i mi mp)
  case Nil
  then show ?case by auto
next
  case (Cons x xs)
  show ?case
  proof (cases "x > mp")
    case True
    have "argmax_scan xs (Suc i) i x < length ((pre @ [x]) @ xs) \<and>
         (\<forall>j<length ((pre @ [x]) @ xs). ((pre @ [x]) @ xs) ! j \<le> ((pre @ [x]) @ xs) ! argmax_scan xs (Suc i) i x) \<and>
         (\<forall>j<argmax_scan xs (Suc i) i x. ((pre @ [x]) @ xs) ! j < ((pre @ [x]) @ xs) ! argmax_scan xs (Suc i) i x)"
      using Cons.prems True
      by (intro Cons.IH) (auto simp: nth_append less_Suc_eq intro: le_less_trans less_imp_le)
    with True show ?thesis by simp
  next
    case False
    have "argmax_scan xs (Suc i) mi mp < length ((pre @ [x]) @ xs) \<and>
         (\<forall>j<length ((pre @ [x]) @ xs). ((pre @ [x]) @ xs) ! j \<le> ((pre @ [x]) @ xs) ! argmax_scan xs (Suc i) mi mp) \<and>
         (\<forall>j<argmax_scan xs (Suc i) mi mp. ((pre @ [x]) @ xs) ! j < ((pre @ [x]) @ xs) ! argmax_scan xs (Suc i) mi mp)"
      using Cons.prems False
      by (intro Cons.IH) (auto simp: nth_append less_Suc_eq)
    with False show ?thesis by simp
  qed
qed

lemma np_argmax_first_max:
  assumes "row \<noteq> []"
  shows "\<exists>k. np_argmax row = Inr k \<and> k < length row \<and>
             (\<forall>j<length row. row ! j \<le> row ! k) \<and> (\<forall>j<k. row ! j < row ! k)"
proof -
  from assms obtain x xs where row: "row = x # xs" by (cases row) auto
  have "argmax_scan xs 1 0 x < length ([x] @ xs) \<and>
         (\<forall>j<length ([x] @ xs). ([x] @ xs) ! j \<le> ([x] @ xs) ! argmax_scan xs 1 0 x) \<and>
         (\<forall>j<argmax_scan xs 1 0 x. ([x] @ xs) ! j < ([x] @ xs) ! argmax_scan xs 1 0 x)"
    by (rule argmax_scan_spec) auto
  then show ?thesis by (simp add: row np_argmax_def)
qed

lemma nth_is_Max:
  assumes "k < length row" "\<forall>j<length row. row ! j \<le> (row ! k :: real)"
  shows "row ! k = Max (set row)"
proof -
  have "Max (set row) = row ! k"
  proof (rule Max_eqI)
    show "finite (set row)" by simp
    show "row ! k \<in> set row" using assms(1) by simp
    fix y assume "y \<in> set row"
    then obtain j where "j < length row" "row ! j = y" by (auto simp: in_set_conv_nth)
    with assms(2) show "y \<le> row ! k" by auto
  qed
  then show ?thesis by simp
qed

lemma np_argmax_Max:
  assumes "row \<noteq> []"
  shows "\<exists>k. np_argmax row = Inr k \<and> k < length row \<and> row ! k = Max (set row) \<and>
             (\<forall>j<k. row ! j < Max (set row))"
proof -
  from np_argmax_first_max [OF assms] obtain k where k: "np_argmax row = Inr k" "k < length row"
    "\<forall>j<length row. row ! j \<le> row ! k" "\<forall>j<k. row ! j < row ! k" by blast
  from nth_is_Max [OF k(2) k(3)] have "row ! k = Max (set row)" .
  with k show ?thesis by auto
qed

lemma norm_index_less: "norm_index n i = Inr k \<Longrightarrow> k < n"
  by (auto simp: norm_index_def split: if_splits)

lemma norm_index_in_range: "0 \<le> i \<Longrightarrow> i < int n \<Longrightarrow> norm_index n i = Inr (nat i)"
  by (simp add: norm_index_def)

lemma norm_index_of_nat: "k < n \<Longrightarrow> norm_index n (int k) = Inr k"
  by (simp add: norm_index_def)

lemma norm_index_error: "i < - int n \<or> int n \<le> i \<Longrightarrow> norm_index n i = Inl IndexError"
  by (auto simp: norm_index_def)

lemma egreedy_policy_greedy:
  assumes "norm_index (length Q) s = Inr i" "Q ! i \<noteq> []" "\<not> fst (rand g) < epsilon"
  shows "egreedy_policy s Q epsilon g = bind_err (np_argmax (Q ! i)) (\<lambda>k. Inr (int k, advance g))"
  using assms by (simp add: egreedy_policy_def rand_def get_row_def bind_err_def)

lemma egreedy_policy_in_range:
  assumes "norm_index (length Q) s = Inr i" "Q ! i \<noteq> []"
  shows "\<exists>k g'. egreedy_policy s Q epsilon g = Inr (int k, g') \<and> k < length (Q ! i)"
proof (cases "fst (rand g) < epsilon")
  case True
  then show ?thesis using assms
    by (simp add: egreedy_policy_def rand_def get_row_def bind_err_def choice_def)
next
  case False
  from np_argmax_first_max [OF assms(2)] obtain k where "np_argmax (Q ! i) = Inr k" "k < length (Q ! i)"
    by blast
  with False assms show ?thesis
    by (simp add: egreedy_policy_def rand_def get_row_def bind_err_def)
qed

text \<open>
  C6: for every table and every state index that names a row (which must hold at least
  one action), \<open>egreedy_policy\<close> with epsilon = 0 returns one and the same action
  \<open>k\<close> for every random source whose draw lies in \<open>[0, 1)\<close>, consuming exactly that
  one draw: \<open>k\<close> is the lowest index at which the row attains its maximum, so among
  tied maxima the first wins.
\<close>

theorem egreedy_policy_zero_epsilon_first_max:
  assumes "norm_index (length Q) s = Inr i" and "Q ! i \<noteq> []"
  shows "\<exists>k<length (Q ! i). Q ! i ! k = Max (set (Q ! i)) \<and> (\<forall>j<k. Q ! i ! j < Max (set (Q ! i))) \<and>
           (\<forall>g. 0 \<le> fst (rand g) \<longrightarrow> egreedy_policy s Q 0 g = Inr (int k, advance g))"
proof -
  from np_argmax_Max [OF assms(2)] obtain k where k: "np_argmax (Q ! i) = Inr k" "k < length (Q ! i)"
    "Q ! i ! k = Max (set (Q ! i))" "\<forall>j<k. Q ! i ! j < Max (set (Q ! i))" by blast
  have "egreedy_policy s Q 0 g = Inr (int k, advance g)" if "0 \<le> fst (rand g)" for g
    using egreedy_policy_greedy [OF assms, of g 0] that k(1) by (simp add: bind_err_def)
  with k show ?thesis by blast
qed

theorem egreedy_policy_zero_epsilon_first_max_witness:
  "egreedy_policy 1 [[0, 1], [2, 7, 7]] 0 (const_rng (1/2) 0) = Inr (1, advance (const_rng (1/2) 0))
   \<and> egreedy_policy (-2) [[4, 4], [2, 7, 7]] 0 (const_rng 0 1) = Inr (0, advance (const_rng 0 1))"
proof -
  have n1: "norm_index (length [[0, 1], [2, 7, 7::real]]) 1 = Inr 1" by (simp add: norm_index_def)
  have r1: "[[0, 1], [2, 7, 7::real]] ! 1 \<noteq> []" by simp
  have "\<exists>k<Suc (Suc (Suc 0)). [2, 7, 7::real] ! k = 7 \<and> (\<forall>j<k. [2, 7, 7::real] ! j < 7) \<and>
          (\<forall>g. 0 \<le> fst (rand g) \<longrightarrow> egreedy_policy 1 [[0, 1], [2, 7, 7]] 0 g = Inr (int k, advance g))"
    using egreedy_policy_zero_epsilon_first_max [OF n1 r1] by simp
  then obtain k where k: "k < Suc (Suc (Suc 0))" "[2, 7, 7::real] ! k = 7" "\<forall>j<k. [2, 7, 7::real] ! j < 7"
    and e: "\<forall>g. 0 \<le> fst (rand g) \<longrightarrow> egreedy_policy 1 [[0, 1], [2, 7, 7]] 0 g = Inr (int k, advance g)"
    by blast
  have "k = 1" using k by (auto simp: less_Suc_eq numeral_3_eq_3 nth_Cons')
  with e have a: "egreedy_policy 1 [[0, 1], [2, 7, 7]] 0 (const_rng (1/2) 0) = Inr (1, advance (const_rng (1/2) 0))"
    by (simp add: rand_def const_rng_def)
  have n2: "norm_index (length [[4, 4], [2, 7, 7::real]]) (-2) = Inr 0" by (simp add: norm_index_def)
  have r2: "[[4, 4], [2, 7, 7::real]] ! 0 \<noteq> []" by simp
  have "\<exists>k<Suc (Suc 0). [4, 4::real] ! k = 4 \<and> (\<forall>j<k. [4, 4::real] ! j < 4) \<and>
          (\<forall>g. 0 \<le> fst (rand g) \<longrightarrow> egreedy_policy (-2) [[4, 4], [2, 7, 7]] 0 g = Inr (int k, advance g))"
    using egreedy_policy_zero_epsilon_first_max [OF n2 r2] by simp
  then obtain k' where k': "k' < Suc (Suc 0)" "[4, 4::real] ! k' = 4" "\<forall>j<k'. [4, 4::real] ! j < 4"
    and e': "\<forall>g. 0 \<le> fst (rand g) \<longrightarrow> egreedy_policy (-2) [[4, 4], [2, 7, 7]] 0 g = Inr (int k', advance g)"
    by blast
  have "k' = 0" using k' by (auto simp: less_Suc_eq numeral_2_eq_2 nth_Cons')
  with e' have b: "egreedy_policy (-2) [[4, 4], [2, 7, 7]] 0 (const_rng 0 1) = Inr (0, advance (const_rng 0 1))"
    by (simp add: rand_def const_rng_def)
  from a b show ?thesis by simp
qed

text \<open>
  C7: \<open>egreedy_policy\<close> raises IndexError, in the exploring branch as in the greedy
  one, for every table with \<open>|S|\<close> rows and every integer state index that names none
  of them. By numpy's indexing the indices naming a row are those of \<open>[-|S|, |S|)\<close>,
  the negative ones counting from the last row.
\<close>

theorem egreedy_policy_index_error:
  assumes "s < - int (length Q) \<or> int (length Q) \<le> s"
  shows "egreedy_policy s Q epsilon g = Inl IndexError"
  using norm_index_error [OF assms]
  by (simp add: egreedy_policy_def rand_def get_row_def bind_err_def)

theorem egreedy_policy_index_error_witness:
  "egreedy_policy 2 [[0, 1], [5, 3]] 0 (const_rng (1/2) 0) = Inl IndexError
   \<and> egreedy_policy (-3) [[0, 1], [5, 3]] 1 (const_rng (1/2) 0) = Inl IndexError"
  using egreedy_policy_index_error [where s = 2 and Q = "[[0, 1], [5, 3]]" and epsilon = 0 and g = "const_rng (1/2) 0"]
        egreedy_policy_index_error [where s = "-3" and Q = "[[0, 1], [5, 3]]" and epsilon = 1 and g = "const_rng (1/2) 0"]
  by simp

subsection \<open>Table shapes and single steps\<close>

lemma table_shape_row: "table_shape n m Q \<Longrightarrow> i < n \<Longrightarrow> length (Q ! i) = m"
  by (auto simp: table_shape_def list_all_length)

lemma table_shape_length: "table_shape n m Q \<Longrightarrow> length Q = n"
  by (simp add: table_shape_def)

lemma table_shape_update:
  "table_shape n m Q \<Longrightarrow> table_shape n m (Q[i := (Q ! i)[j := x]])"
  by (cases "i < length Q") (auto simp: table_shape_def list_all_length nth_list_update)

lemma table_shape_zero: "table_shape n m (replicate n (replicate m 0))"
  by (simp add: table_shape_def list_all_length)

lemma get_item_in_range:
  assumes "table_shape n m Q" "0 \<le> s" "s < int n" "0 \<le> a" "a < int m"
  shows "get_item Q s a = Inr (Q ! nat s ! nat a)"
proof -
  have "nat s < n" using assms by linarith
  with assms show ?thesis
    by (simp add: get_item_def get_row_def bind_err_def norm_index_in_range table_shape_length
        table_shape_row)
qed

lemma add_item_in_range:
  assumes "table_shape n m Q" "0 \<le> s" "s < int n" "0 \<le> a" "a < int m"
  shows "add_item Q s a x = Inr (Q[nat s := (Q ! nat s)[nat a := Q ! nat s ! nat a + x]])"
proof -
  have "nat s < n" using assms by linarith
  with assms show ?thesis
    by (simp add: add_item_def bind_err_def norm_index_in_range table_shape_length table_shape_row)
qed

lemma get_row_in_range:
  assumes "table_shape n m Q" "0 \<le> s" "s < int n"
  shows "get_row Q s = Inr (Q ! nat s)"
  using assms by (simp add: get_row_def bind_err_def norm_index_in_range table_shape_length)

lemma egreedy_policy_consumes:
  assumes "egreedy_policy s Q epsilon g = Inr (a, g')"
  shows "floats g' = floats g \<and> choices g' = choices g \<and> consumed g < consumed g'"
  using assms
  by (auto simp: egreedy_policy_def rand_def advance_def bind_err_def choice_def
      split: if_splits sum.splits prod.splits)

lemma egreedy_policy_shape:
  assumes "table_shape n m Q" "0 < m" "0 \<le> s" "s < int n"
  shows "\<exists>a g'. egreedy_policy s Q epsilon g = Inr (a, g') \<and> 0 \<le> a \<and> a < int m"
proof -
  have s: "nat s < n" using assms by linarith
  have ni: "norm_index (length Q) s = Inr (nat s)"
    using assms by (simp add: norm_index_in_range table_shape_length)
  have ne: "Q ! nat s \<noteq> []" using table_shape_row [OF assms(1) s] assms(2) by auto
  from egreedy_policy_in_range [OF ni ne, of epsilon g] table_shape_row [OF assms(1) s]
  show ?thesis by auto
qed

lemma sarsa_step_in_range:
  assumes sh: "table_shape n m (Q_s v)"
    and s: "0 \<le> state_s v" "state_s v < int n"
    and a: "0 \<le> action_s v" "action_s v < int m"
    and st: "step env (env_s v) (action_s v) = ((s', r, d), e')"
    and s': "0 \<le> s'" "s' < int n"
    and eg: "egreedy_policy s' (Q_s v) epsilon (rng_s v) = Inr (a', g')"
    and a': "0 \<le> a'" "a' < int m"
    and t: "t < length (sum_rewards_s v)"
  shows "sarsa_step env alpha gamma epsilon t v =
           Inr (v\<lparr>env_s := e', rng_s := g',
                  Q_s := (Q_s v)[nat (state_s v) := (Q_s v ! nat (state_s v))[nat (action_s v) :=
                     Q_s v ! nat (state_s v) ! nat (action_s v)
                     + alpha * (r + gamma * Q_s v ! nat s' ! nat a'
                                - Q_s v ! nat (state_s v) ! nat (action_s v))]],
                  state_s := s', action_s := a',
                  sum_rewards_s := (sum_rewards_s v)[t := sum_rewards_s v ! t + r]\<rparr>, d)"
  using st eg t
  by (simp add: sarsa_step_def bind_err_def add_at_def
      get_item_in_range [OF sh s a] get_item_in_range [OF sh s' a'] add_item_in_range [OF sh s a])


lemma np_argmax_shape:
  assumes "table_shape n m Q" "0 < m" "0 \<le> s" "s < int n"
  shows "\<exists>k. np_argmax (Q ! nat s) = Inr k \<and> k < m \<and> Q ! nat s ! k = Max (set (Q ! nat s))
             \<and> (\<forall>j<k. Q ! nat s ! j < Max (set (Q ! nat s)))"
proof -
  have s: "nat s < n" using assms by linarith
  have ne: "Q ! nat s \<noteq> []" using table_shape_row [OF assms(1) s] assms(2) by auto
  from np_argmax_Max [OF ne] table_shape_row [OF assms(1) s] show ?thesis by auto
qed

lemma qlearning_step_in_range:
  assumes sh: "table_shape n m (Q_q v)"
    and s: "0 \<le> state_q v" "state_q v < int n"
    and eg: "egreedy_policy (state_q v) (Q_q v) epsilon (rng_q v) = Inr (a, g')"
    and a: "0 \<le> a" "a < int m"
    and st: "step env (env_q v) a = ((s', r, d), e')"
    and s': "0 \<le> s'" "s' < int n"
    and am: "np_argmax (Q_q v ! nat s') = Inr k" "k < m"
    and t: "t < length (sum_rewards_q v)"
  shows "qlearning_step env alpha gamma epsilon t v =
           Inr (v\<lparr>env_q := e', rng_q := g',
                  Q_q := (Q_q v)[nat (state_q v) := (Q_q v ! nat (state_q v))[nat a :=
                     Q_q v ! nat (state_q v) ! nat a
                     + alpha * (r + gamma * Q_q v ! nat s' ! k - Q_q v ! nat (state_q v) ! nat a)]],
                  state_q := s',
                  sum_rewards_q := (sum_rewards_q v)[t := sum_rewards_q v ! t + r]\<rparr>, d)"
proof -
  have k: "0 \<le> int k" "int k < int m" using am(2) by auto
  show ?thesis
    using st eg t am(1)
    by (simp add: qlearning_step_def bind_err_def add_at_def get_row_in_range [OF sh s']
        get_item_in_range [OF sh s a] get_item_in_range [OF sh s' k] add_item_in_range [OF sh s a])
qed

lemma double_qlearning_step_first:
  assumes sh1: "table_shape n m (Q1_d v)" and sh2: "table_shape n m (Q2_d v)"
    and s: "0 \<le> state_d v" "state_d v < int n"
    and eg: "egreedy_policy (state_d v) (table_add (Q1_d v) (Q2_d v)) epsilon (rng_d v) = Inr (a, g1)"
    and a: "0 \<le> a" "a < int m"
    and st: "step env (env_d v) a = ((s', r, d), e')"
    and s': "0 \<le> s'" "s' < int n"
    and coin: "fst (rand g1) < 1/2"
    and am: "np_argmax (Q1_d v ! nat s') = Inr k" "k < m"
    and t: "t < length (sum_rewards_d v)"
  shows "double_qlearning_step env alpha gamma epsilon t v =
           Inr (v\<lparr>env_d := e', rng_d := snd (rand g1),
                  Q1_d := (Q1_d v)[nat (state_d v) := (Q1_d v ! nat (state_d v))[nat a :=
                     Q1_d v ! nat (state_d v) ! nat a
                     + alpha * (r + gamma * Q2_d v ! nat s' ! k - Q1_d v ! nat (state_d v) ! nat a)]],
                  state_d := s',
                  sum_rewards_d := (sum_rewards_d v)[t := sum_rewards_d v ! t + r]\<rparr>, d)"
proof -
  have k: "0 \<le> int k" "int k < int m" using am(2) by auto
  obtain c g2 where rg: "rand g1 = (c, g2)" by (cases "rand g1") auto
  have c: "c < 0.5" using coin rg by simp
  show ?thesis
    using st eg t am(1) rg c
    by (simp add: double_qlearning_step_def bind_err_def add_at_def get_row_in_range [OF sh1 s']
        get_item_in_range [OF sh1 s a] get_item_in_range [OF sh2 s' k] add_item_in_range [OF sh1 s a])
qed

lemma double_qlearning_step_second:
  assumes sh1: "table_shape n m (Q1_d v)" and sh2: "table_shape n m (Q2_d v)"
    and s: "0 \<le> state_d v" "state_d v < int n"
    and eg: "egreedy_policy (state_d v) (table_add (Q1_d v) (Q2_d v)) epsilon (rng_d v) = Inr (a, g1)"
    and a: "0 \<le> a" "a < int m"
    and st: "step env (env_d v) a = ((s', r, d), e')"
    and s': "0 \<le> s'" "s' < int n"
    and coin: "\<not> fst (rand g1) < 1/2"
    and am: "np_argmax (Q2_d v ! nat s') = Inr k" "k < m"
    and t: "t < length (sum_rewards_d v)"
  shows "double_qlearning_step env alpha gamma epsilon t v =
           Inr (v\<lparr>env_d := e', rng_d := snd (rand g1),
                  Q2_d := (Q2_d v)[nat (state_d v) := (Q2_d v ! nat (state_d v))[nat a :=
                     Q2_d v ! nat (state_d v) ! nat a
                     + alpha * (r + gamma * Q1_d v ! nat s' ! k - Q2_d v ! nat (state_d v) ! nat a)]],
                  state_d := s',
                  sum_rewards_d := (sum_rewards_d v)[t := sum_rewards_d v ! t + r]\<rparr>, d)"
proof -
  have k: "0 \<le> int k" "int k < int m" using am(2) by auto
  obtain c g2 where rg: "rand g1 = (c, g2)" by (cases "rand g1") auto
  have c: "\<not> c < 0.5" using coin rg by simp
  show ?thesis
    using st eg t am(1) rg c
    by (simp add: double_qlearning_step_def bind_err_def add_at_def get_row_in_range [OF sh2 s']
        get_item_in_range [OF sh2 s a] get_item_in_range [OF sh1 s' k] add_item_in_range [OF sh2 s a])
qed

lemma table_add_shape:
  assumes "table_shape n m A" "table_shape n m B"
  shows "table_shape n m (table_add A B)"
  using assms by (auto simp: table_shape_def table_add_def list_all_length)

lemma table_add_nth:
  assumes "table_shape n m A" "table_shape n m B" "i < n" "j < m"
  shows "table_add A B ! i ! j = A ! i ! j + B ! i ! j"
  using assms by (auto simp: table_shape_def table_add_def list_all_length)

lemma table_add_row:
  assumes "table_shape n m A" "table_shape n m B" "i < n"
  shows "table_add A B ! i = map2 (+) (A ! i) (B ! i)"
  using assms by (auto simp: table_shape_def table_add_def list_all_length)

lemma table_div_shape:
  assumes "table_shape n m A"
  shows "table_shape n m (table_div A c)"
  using assms by (auto simp: table_shape_def table_div_def list_all_length)

lemma table_div_nth:
  assumes "table_shape n m A" "i < n" "j < m"
  shows "table_div A c ! i ! j = A ! i ! j / c"
  using assms by (auto simp: table_shape_def table_div_def list_all_length)

subsection \<open>Loop rules\<close>

lemma while_true_invariant:
  fixes body :: "'a \<Rightarrow> error + 'a \<times> bool"
  assumes run: "while_true body st = Some (Inr st')"
    and inv: "I st"
    and pres: "\<And>s s' d. I s \<Longrightarrow> body s = Inr (s', d) \<Longrightarrow> I s'"
  shows "I st'"
proof -
  have "body = body \<longrightarrow> I st \<longrightarrow> (\<forall>x. (Inr st' :: error + 'a) = Inr x \<longrightarrow> I x)"
  proof (rule while_true.raw_induct
      [where P = "\<lambda>b s r. b = body \<longrightarrow> I s \<longrightarrow> (\<forall>x. r = Inr x \<longrightarrow> I x)"
         and body = body and st = st and y = "Inr st'"])
    show "while_true body st = Some (Inr st')" by (rule run)
  next
    fix loop :: "('a \<Rightarrow> error + 'a \<times> bool) \<Rightarrow> 'a \<Rightarrow> (error + 'a) option"
    fix b s r
    assume IH: "\<And>b' s' y. loop b' s' = Some y \<Longrightarrow> b' = body \<longrightarrow> I s' \<longrightarrow> (\<forall>x. y = Inr x \<longrightarrow> I x)"
      and eq: "(case b s of Inl e \<Rightarrow> Some (Inl e)
                | Inr (st', done) \<Rightarrow> if done then Some (Inr st') else loop b st') = Some r"
    show "b = body \<longrightarrow> I s \<longrightarrow> (\<forall>x. r = Inr x \<longrightarrow> I x)"
    proof (intro impI allI)
      fix x assume b: "b = body" and i: "I s" and r: "r = Inr x"
      show "I x"
      proof (cases "body s")
        case (Inl err)
        with eq b r show ?thesis by simp
      next
        case (Inr p)
        obtain s' d where p: "p = (s', d)" by (cases p)
        from pres [OF i] Inr p have i': "I s'" by simp
        show ?thesis
        proof (cases d)
          case True
          with eq Inr p b r i' show ?thesis by simp
        next
          case False
          with eq Inr p b have "loop body s' = Some r" by simp
          from IH [OF this] i' r show ?thesis by simp
        qed
      qed
    qed
  qed
  with inv show ?thesis by simp
qed

lemma for_each_invariant:
  assumes run: "for_each body ts st = Some (Inr st')"
    and inv: "I st"
    and pres: "\<And>t s s'. I s \<Longrightarrow> body t s = Some (Inr s') \<Longrightarrow> I s'"
  shows "I st'"
  using run inv
proof (induction ts arbitrary: st)
  case Nil
  then show ?case by simp
next
  case (Cons t ts)
  from Cons.prems(1) obtain s1 where b: "body t st = Some (Inr s1)"
    and r: "for_each body ts s1 = Some (Inr st')"
    by (auto split: option.splits sum.splits)
  from pres [OF Cons.prems(2) b] have "I s1" .
  from Cons.IH [OF r this] show ?case .
qed

lemma while_true_terminates:
  fixes f :: "'s \<Rightarrow> nat"
  assumes inv: "I st"
    and body: "\<And>s. I s \<Longrightarrow> \<exists>s' d. body s = Inr (s', d) \<and> I s' \<and> (\<not> d \<longrightarrow> f s' < f s)"
  shows "\<exists>st'. while_true body st = Some (Inr st') \<and> I st'"
  using inv
proof (induction "f st" arbitrary: st rule: less_induct)
  case less
  from body [OF less.prems] obtain s' d where b: "body st = Inr (s', d)" and i: "I s'"
    and dec: "\<not> d \<longrightarrow> f s' < f st" by blast
  show ?case
  proof (cases d)
    case True
    with b i show ?thesis by (subst while_true.simps) simp
  next
    case False
    with dec have "f s' < f st" by simp
    from less.hyps [OF this i] obtain st' where "while_true body s' = Some (Inr st')" "I st'"
      by blast
    with b False show ?thesis by (subst while_true.simps) simp
  qed
qed

lemma for_each_upt_terminates:
  assumes inv: "J k st"
    and body: "\<And>t s. k \<le> t \<Longrightarrow> t < k + d \<Longrightarrow> J t s \<Longrightarrow> \<exists>s'. body t s = Some (Inr s') \<and> J (Suc t) s'"
  shows "\<exists>st'. for_each body [k..<k + d] st = Some (Inr st') \<and> J (k + d) st'"
  using inv body
proof (induction d arbitrary: k st)
  case 0
  then show ?case by simp
next
  case (Suc d)
  from Suc.prems(2) [of k st] Suc.prems(1)
  obtain s1 where b: "body k st = Some (Inr s1)" and j: "J (Suc k) s1" by auto
  have "\<exists>st'. for_each body [Suc k..<Suc k + d] s1 = Some (Inr st') \<and> J (Suc k + d) st'"
  proof (rule Suc.IH [OF j])
    fix t s assume "Suc k \<le> t" "t < Suc k + d" "J t s"
    then show "\<exists>s'. body t s = Some (Inr s') \<and> J (Suc t) s'"
      using Suc.prems(2) [of t s] by simp
  qed
  then obtain st' where r: "for_each body [Suc k..<Suc k + d] s1 = Some (Inr st')"
    and j': "J (Suc k + d) st'" by blast
  have "[k..<k + Suc d] = k # [Suc k..<Suc k + d]" by (simp add: upt_conv_Cons)
  with b r j' show ?case by simp
qed

subsection \<open>Evaluation on concrete inputs\<close>

lemmas eval_defs = egreedy_policy_def rand_def advance_def const_rng_def get_row_def norm_index_def
  bind_err_def np_argmax_def choice_def table_shape_def two_state_env_def

section \<open>The update rules\<close>

text \<open>
  C2: one pass through the body of the SARSA loop, on a table of shape \<open>(n, m)\<close> with
  the current state and action and the observed next state in range. The next action
  \<open>a'\<close> is what \<open>egreedy_policy\<close> returns for the next state on the very table being
  learned; the entry at (state, action) becomes
  \<open>Q[s,a] + alpha * (reward + gamma * Q[s',a'] - Q[s,a])\<close> and no other entry changes;
  the loop variables advance to \<open>(s', a')\<close>, so that when the episode is not over the
  loop goes on from there and its next pass executes exactly \<open>a'\<close> on the environment.
\<close>

theorem sarsa_step_on_policy_update:
  assumes sh: "table_shape n m (Q_s v)" and m: "0 < m"
    and s: "0 \<le> state_s v" "state_s v < int n"
    and a: "0 \<le> action_s v" "action_s v < int m"
    and st: "step env (env_s v) (action_s v) = ((s', r, d), e')"
    and s': "0 \<le> s'" "s' < int n"
    and t: "t < length (sum_rewards_s v)"
  shows "\<exists>a' g' v'.
      egreedy_policy s' (Q_s v) epsilon (rng_s v) = Inr (a', g') \<and>
      sarsa_step env alpha gamma epsilon t v = Inr (v', d) \<and>
      Q_s v' = (Q_s v)[nat (state_s v) := (Q_s v ! nat (state_s v))[nat (action_s v) :=
                  Q_s v ! nat (state_s v) ! nat (action_s v)
                  + alpha * (r + gamma * Q_s v ! nat s' ! nat a'
                             - Q_s v ! nat (state_s v) ! nat (action_s v))]] \<and>
      env_s v' = e' \<and> rng_s v' = g' \<and> state_s v' = s' \<and> action_s v' = a' \<and>
      (\<not> d \<longrightarrow> while_true (sarsa_step env alpha gamma epsilon t) v
                 = while_true (sarsa_step env alpha gamma epsilon t) v') \<and>
      (\<forall>v'' d'. sarsa_step env alpha gamma epsilon t v' = Inr (v'', d')
                 \<longrightarrow> env_s v'' = snd (step env e' a'))"
proof -
  from egreedy_policy_shape [OF sh m s', of epsilon "rng_s v"]
  obtain a' g' where eg: "egreedy_policy s' (Q_s v) epsilon (rng_s v) = Inr (a', g')"
    and a': "0 \<le> a'" "a' < int m" by blast
  let ?v' = "v\<lparr>env_s := e', rng_s := g',
                  Q_s := (Q_s v)[nat (state_s v) := (Q_s v ! nat (state_s v))[nat (action_s v) :=
                     Q_s v ! nat (state_s v) ! nat (action_s v)
                     + alpha * (r + gamma * Q_s v ! nat s' ! nat a'
                                - Q_s v ! nat (state_s v) ! nat (action_s v))]],
                  state_s := s', action_s := a',
                  sum_rewards_s := (sum_rewards_s v)[t := sum_rewards_s v ! t + r]\<rparr>"
  have stp: "sarsa_step env alpha gamma epsilon t v = Inr (?v', d)"
    by (rule sarsa_step_in_range [OF sh s a st s' eg a' t])
  have loop: "while_true (sarsa_step env alpha gamma epsilon t) v
                = while_true (sarsa_step env alpha gamma epsilon t) ?v'" if "\<not> d"
    using that stp by (subst while_true.simps) simp
  have nxt: "env_s v'' = snd (step env e' a')"
    if "sarsa_step env alpha gamma epsilon t ?v' = Inr (v'', d')" for v'' d'
    using that
    by (auto simp: sarsa_step_def bind_err_def split: prod.splits sum.splits)
  show ?thesis
    using eg stp loop nxt
    by (intro exI [of _ a'] exI [of _ g'] exI [of _ ?v']) simp
qed

theorem sarsa_step_on_policy_update_witness:
  "\<exists>v'. sarsa_step two_state_env (1/2) (1/2) 0 0
           \<lparr>env_s = 0, rng_s = const_rng (1/2) 0, Q_s = [[1, 2], [3, 4]], state_s = 0,
            action_s = 1, sum_rewards_s = [0]\<rparr> = Inr (v', False)
        \<and> Q_s v' = [[1, 3/2], [3, 4]] \<and> state_s v' = 0 \<and> action_s v' = 1"
proof -
  let ?v = "\<lparr>env_s = 0::int, rng_s = const_rng (1/2) 0, Q_s = [[1, 2], [3, 4]], state_s = 0,
            action_s = 1, sum_rewards_s = [0]\<rparr>"
  have sh: "table_shape 2 2 (Q_s ?v)" by (simp add: table_shape_def)
  have st: "step two_state_env (env_s ?v) (action_s ?v) = ((0, 0, False), 0)"
    by (simp add: two_state_env_def)
  have eg: "egreedy_policy 0 (Q_s ?v) 0 (rng_s ?v) = Inr (1, advance (const_rng (1/2) 0))"
    by (simp add: eval_defs)
  from sarsa_step_on_policy_update [OF sh _ _ _ _ _ st, where epsilon = 0 and t = 0
      and alpha = "1/2" and gamma = "1/2"] eg
  show ?thesis by (simp add: numeral_2_eq_2) blast
qed

text \<open>
  C10: in SARSA, on the pass where the environment reports done = True, a next action
  is still drawn by \<open>egreedy_policy\<close> (the random source moves on), and the entry is
  updated towards \<open>reward + gamma * Q[next_state][next_action]\<close>, the value stored in
  the terminal state's row, not towards the bare reward; the loop then ends with that
  state.
\<close>

theorem sarsa_terminal_step_bootstraps:
  assumes sh: "table_shape n m (Q_s v)" and m: "0 < m"
    and s: "0 \<le> state_s v" "state_s v < int n"
    and a: "0 \<le> action_s v" "action_s v < int m"
    and st: "step env (env_s v) (action_s v) = ((s', r, True), e')"
    and s': "0 \<le> s'" "s' < int n"
    and t: "t < length (sum_rewards_s v)"
  shows "\<exists>a' g' v'.
      egreedy_policy s' (Q_s v) epsilon (rng_s v) = Inr (a', g') \<and>
      consumed (rng_s v) < consumed g' \<and>
      sarsa_step env alpha gamma epsilon t v = Inr (v', True) \<and>
      rng_s v' = g' \<and>
      Q_s v' ! nat (state_s v) ! nat (action_s v) =
         Q_s v ! nat (state_s v) ! nat (action_s v)
         + alpha * (r + gamma * Q_s v ! nat s' ! nat a'
                    - Q_s v ! nat (state_s v) ! nat (action_s v)) \<and>
      while_true (sarsa_step env alpha gamma epsilon t) v = Some (Inr v')"
proof -
  from egreedy_policy_shape [OF sh m s', of epsilon "rng_s v"]
  obtain a' g' where eg: "egreedy_policy s' (Q_s v) epsilon (rng_s v) = Inr (a', g')"
    and a': "0 \<le> a'" "a' < int m" by blast
  let ?v' = "v\<lparr>env_s := e', rng_s := g',
                  Q_s := (Q_s v)[nat (state_s v) := (Q_s v ! nat (state_s v))[nat (action_s v) :=
                     Q_s v ! nat (state_s v) ! nat (action_s v)
                     + alpha * (r + gamma * Q_s v ! nat s' ! nat a'
                                - Q_s v ! nat (state_s v) ! nat (action_s v))]],
                  state_s := s', action_s := a',
                  sum_rewards_s := (sum_rewards_s v)[t := sum_rewards_s v ! t + r]\<rparr>"
  have stp: "sarsa_step env alpha gamma epsilon t v = Inr (?v', True)"
    by (rule sarsa_step_in_range [OF sh s a st s' eg a' t])
  have loop: "while_true (sarsa_step env alpha gamma epsilon t) v = Some (Inr ?v')"
    using stp by (subst while_true.simps) simp
  have si: "nat (state_s v) < length (Q_s v)" using s table_shape_length [OF sh] by linarith
  then have "nat (state_s v) < n" using table_shape_length [OF sh] by simp
  from table_shape_row [OF sh this] a
  have ai: "nat (action_s v) < length (Q_s v ! nat (state_s v))" by linarith
  show ?thesis
    using eg stp loop egreedy_policy_consumes [OF eg] si ai
    by (intro exI [of _ a'] exI [of _ g'] exI [of _ ?v']) simp
qed

theorem sarsa_terminal_step_bootstraps_witness:
  "\<exists>v'. while_true (sarsa_step two_state_env (1/2) 1 0 0)
           \<lparr>env_s = 0, rng_s = const_rng (1/2) 0, Q_s = [[0, 0], [3, 0]], state_s = 0,
            action_s = 0, sum_rewards_s = [0]\<rparr> = Some (Inr v')
        \<and> Q_s v' ! 0 ! 0 = 2 \<and> consumed (rng_s v') = 1"
proof -
  let ?v = "\<lparr>env_s = 0::int, rng_s = const_rng (1/2) 0, Q_s = [[0, 0], [3, 0]], state_s = 0,
            action_s = 0, sum_rewards_s = [0]\<rparr>"
  have sh: "table_shape 2 2 (Q_s ?v)" by (simp add: table_shape_def)
  have st: "step two_state_env (env_s ?v) (action_s ?v) = ((1, 1, True), 1)"
    by (simp add: two_state_env_def)
  have eg: "egreedy_policy 1 (Q_s ?v) 0 (rng_s ?v) = Inr (0, advance (const_rng (1/2) 0))"
    by (simp add: eval_defs)
  from sarsa_terminal_step_bootstraps [OF sh _ _ _ _ _ st, where epsilon = 0 and t = 0
      and alpha = "1/2" and gamma = 1] eg
  show ?thesis by (auto simp: advance_def const_rng_def)
qed

text \<open>
  C3: one pass through the body of the Q-learning loop. The action executed on the
  environment is the one \<open>egreedy_policy\<close> returns at the top of the pass for the
  current state; the entry at (state, action) becomes
  \<open>Q[s,a] + alpha * (reward + gamma * max Q[s'] - Q[s,a])\<close>, the maximum taken over the
  whole row of the next state. No draw is made for the action of the following pass:
  the random source is left as the policy call left it, and the new table depends on
  nothing but the old table, \<open>s\<close>, \<open>a\<close>, the reward and \<open>s'\<close>.
\<close>

theorem qlearning_step_max_update:
  assumes sh: "table_shape n m (Q_q v)" and m: "0 < m"
    and s: "0 \<le> state_q v" "state_q v < int n"
    and eg: "egreedy_policy (state_q v) (Q_q v) epsilon (rng_q v) = Inr (a, g')"
    and st: "step env (env_q v) a = ((s', r, d), e')"
    and s': "0 \<le> s'" "s' < int n"
    and t: "t < length (sum_rewards_q v)"
  shows "\<exists>v'.
      qlearning_step env alpha gamma epsilon t v = Inr (v', d) \<and>
      Q_q v' = (Q_q v)[nat (state_q v) := (Q_q v ! nat (state_q v))[nat a :=
                  Q_q v ! nat (state_q v) ! nat a
                  + alpha * (r + gamma * Max (set (Q_q v ! nat s'))
                             - Q_q v ! nat (state_q v) ! nat a)]] \<and>
      env_q v' = e' \<and> rng_q v' = g' \<and> state_q v' = s' \<and>
      (\<not> d \<longrightarrow> while_true (qlearning_step env alpha gamma epsilon t) v
                 = while_true (qlearning_step env alpha gamma epsilon t) v')"
proof -
  from egreedy_policy_shape [OF sh m s, of epsilon "rng_q v"] eg
  have a: "0 \<le> a" "a < int m" by auto
  from np_argmax_shape [OF sh m s']
  obtain k where k: "np_argmax (Q_q v ! nat s') = Inr k" "k < m"
    "Q_q v ! nat s' ! k = Max (set (Q_q v ! nat s'))" by blast
  let ?v' = "v\<lparr>env_q := e', rng_q := g',
                  Q_q := (Q_q v)[nat (state_q v) := (Q_q v ! nat (state_q v))[nat a :=
                     Q_q v ! nat (state_q v) ! nat a
                     + alpha * (r + gamma * Q_q v ! nat s' ! k - Q_q v ! nat (state_q v) ! nat a)]],
                  state_q := s',
                  sum_rewards_q := (sum_rewards_q v)[t := sum_rewards_q v ! t + r]\<rparr>"
  have stp: "qlearning_step env alpha gamma epsilon t v = Inr (?v', d)"
    by (rule qlearning_step_in_range [OF sh s eg a st s' k(1) k(2) t])
  have loop: "while_true (qlearning_step env alpha gamma epsilon t) v
                = while_true (qlearning_step env alpha gamma epsilon t) ?v'" if "\<not> d"
    using that stp by (subst while_true.simps) simp
  show ?thesis
    using stp loop k(3)
    by (intro exI [of _ ?v']) simp
qed

theorem qlearning_step_max_update_witness:
  "\<exists>v'. qlearning_step two_state_env (1/2) (1/2) 0 0
           \<lparr>env_q = 0, rng_q = const_rng (1/2) 0, Q_q = [[1, 2], [3, 4]], state_q = 0,
            sum_rewards_q = [0]\<rparr> = Inr (v', False)
        \<and> Q_q v' = [[1, 3/2], [3, 4]] \<and> state_q v' = 0"
proof -
  let ?v = "\<lparr>env_q = 0::int, rng_q = const_rng (1/2) 0, Q_q = [[1, 2], [3, 4]], state_q = 0,
            sum_rewards_q = [0]\<rparr>"
  have sh: "table_shape 2 2 (Q_q ?v)" by (simp add: table_shape_def)
  have eg: "egreedy_policy (state_q ?v) (Q_q ?v) 0 (rng_q ?v) = Inr (1, advance (const_rng (1/2) 0))"
    by (simp add: eval_defs)
  have st: "step two_state_env (env_q ?v) 1 = ((0, 0, False), 0)"
    by (simp add: two_state_env_def)
  from qlearning_step_max_update [OF sh _ _ _ eg st, where t = 0 and alpha = "1/2" and gamma = "1/2"]
  show ?thesis by (simp add: numeral_2_eq_2) blast
qed
text \<open>
  C4: one pass through the body of the double Q-learning loop. After the transition one
  more number is drawn; when it is below one half (half of the interval \<open>[0, 1)\<close> the
  draw ranges over), table 1 is updated as
  \<open>Q1[s,a] + alpha * (reward + gamma * Q2[s'][k] - Q1[s,a])\<close> with \<open>k\<close> the argmax of
  row \<open>Q1[s']\<close>, and table 2 is untouched; otherwise the same with the two tables
  exchanged.
\<close>

theorem double_qlearning_step_coin_update:
  assumes sh1: "table_shape n m (Q1_d v)" and sh2: "table_shape n m (Q2_d v)" and m: "0 < m"
    and s: "0 \<le> state_d v" "state_d v < int n"
    and eg: "egreedy_policy (state_d v) (table_add (Q1_d v) (Q2_d v)) epsilon (rng_d v) = Inr (a, g1)"
    and st: "step env (env_d v) a = ((s', r, d), e')"
    and s': "0 \<le> s'" "s' < int n"
    and t: "t < length (sum_rewards_d v)"
  shows "\<exists>k v'.
      double_qlearning_step env alpha gamma epsilon t v = Inr (v', d) \<and>
      rng_d v' = snd (rand g1) \<and> env_d v' = e' \<and> state_d v' = s' \<and>
      (fst (rand g1) < 1/2 \<longrightarrow>
         np_argmax (Q1_d v ! nat s') = Inr k \<and> k < m \<and>
         Q1_d v ! nat s' ! k = Max (set (Q1_d v ! nat s')) \<and>
         Q1_d v' = (Q1_d v)[nat (state_d v) := (Q1_d v ! nat (state_d v))[nat a :=
                     Q1_d v ! nat (state_d v) ! nat a
                     + alpha * (r + gamma * Q2_d v ! nat s' ! k - Q1_d v ! nat (state_d v) ! nat a)]] \<and>
         Q2_d v' = Q2_d v) \<and>
      (\<not> fst (rand g1) < 1/2 \<longrightarrow>
         np_argmax (Q2_d v ! nat s') = Inr k \<and> k < m \<and>
         Q2_d v ! nat s' ! k = Max (set (Q2_d v ! nat s')) \<and>
         Q2_d v' = (Q2_d v)[nat (state_d v) := (Q2_d v ! nat (state_d v))[nat a :=
                     Q2_d v ! nat (state_d v) ! nat a
                     + alpha * (r + gamma * Q1_d v ! nat s' ! k - Q2_d v ! nat (state_d v) ! nat a)]] \<and>
         Q1_d v' = Q1_d v)"
proof -
  from egreedy_policy_shape [OF table_add_shape [OF sh1 sh2] m s, of epsilon "rng_d v"] eg
  have a: "0 \<le> a" "a < int m" by auto
  show ?thesis
  proof (cases "fst (rand g1) < 1/2")
    case True
    from np_argmax_shape [OF sh1 m s']
    obtain k where k: "np_argmax (Q1_d v ! nat s') = Inr k" "k < m"
      "Q1_d v ! nat s' ! k = Max (set (Q1_d v ! nat s'))" by blast
    from double_qlearning_step_first [OF sh1 sh2 s eg a st s' True k(1) k(2) t, of alpha gamma] k True
    show ?thesis by (intro exI [of _ k]) simp
  next
    case False
    from np_argmax_shape [OF sh2 m s']
    obtain k where k: "np_argmax (Q2_d v ! nat s') = Inr k" "k < m"
      "Q2_d v ! nat s' ! k = Max (set (Q2_d v ! nat s'))" by blast
    from double_qlearning_step_second [OF sh1 sh2 s eg a st s' False k(1) k(2) t, of alpha gamma] k False
    show ?thesis by (intro exI [of _ k]) simp
  qed
qed

theorem double_qlearning_step_coin_update_witness:
  "(\<exists>v'. double_qlearning_step two_state_env (1/2) 1 0 0
           \<lparr>env_d = 0, rng_d = const_rng (1/4) 0, Q1_d = [[0, 0], [1, 5]], Q2_d = [[0, 0], [7, 2]],
            state_d = 0, sum_rewards_d = [0]\<rparr> = Inr (v', True)
        \<and> Q1_d v' = [[3/2, 0], [1, 5]] \<and> Q2_d v' = [[0, 0], [7, 2]])
   \<and> (\<exists>v'. double_qlearning_step two_state_env (1/2) 1 0 0
           \<lparr>env_d = 0, rng_d = const_rng (3/4) 0, Q1_d = [[0, 0], [1, 5]], Q2_d = [[0, 0], [7, 2]],
            state_d = 0, sum_rewards_d = [0]\<rparr> = Inr (v', True)
        \<and> Q1_d v' = [[0, 0], [1, 5]] \<and> Q2_d v' = [[1, 0], [7, 2]])"
proof -
  let ?v = "\<lambda>u. \<lparr>env_d = 0::int, rng_d = const_rng u 0, Q1_d = [[0, 0], [1, 5]],
            Q2_d = [[0, 0], [7, 2]], state_d = 0, sum_rewards_d = [0]\<rparr>"
  have sh1: "table_shape 2 2 (Q1_d (?v u))" for u by (simp add: table_shape_def)
  have sh2: "table_shape 2 2 (Q2_d (?v u))" for u by (simp add: table_shape_def)
  have eg: "egreedy_policy (state_d (?v u)) (table_add (Q1_d (?v u)) (Q2_d (?v u))) 0 (rng_d (?v u))
              = Inr (0, advance (const_rng u 0))" if "0 \<le> u" for u
    using that by (simp add: eval_defs table_add_def)
  have st: "step two_state_env (env_d (?v u)) 0 = ((1, 1, True), 1)" for u
    by (simp add: two_state_env_def)
  have a1: "np_argmax [1, 5] = Inr 1" and a2: "np_argmax [7, 2] = Inr 0"
    by (simp_all add: np_argmax_def)
  have e1: "0 \<le> (1/4::real)" and e2: "0 \<le> (3/4::real)" by simp_all
  from double_qlearning_step_coin_update [OF sh1 sh2 _ _ _ eg [OF e1] st, where t = 0
      and alpha = "1/2" and gamma = 1] a1
  have A: "\<exists>v'. double_qlearning_step two_state_env (1/2) 1 0 0 (?v (1/4)) = Inr (v', True)
        \<and> Q1_d v' = [[3/2, 0], [1, 5]] \<and> Q2_d v' = [[0, 0], [7, 2]]"
    by (auto simp: numeral_2_eq_2 rand_def advance_def const_rng_def)
  from double_qlearning_step_coin_update [OF sh1 sh2 _ _ _ eg [OF e2] st, where t = 0
      and alpha = "1/2" and gamma = 1] a2
  have B: "\<exists>v'. double_qlearning_step two_state_env (1/2) 1 0 0 (?v (3/4)) = Inr (v', True)
        \<and> Q1_d v' = [[0, 0], [1, 5]] \<and> Q2_d v' = [[1, 0], [7, 2]]"
    by (auto simp: numeral_2_eq_2 rand_def advance_def const_rng_def)
  from A B show ?thesis by simp
qed

section \<open>Whole runs\<close>

subsection \<open>One episode of the two-state scenario\<close>

lemma zero_value_scenario:
  assumes "scenario env e"
  shows "zero_value env = Inr [[0, 0], [0, 0]]"
  using assms by (simp add: scenario_def zero_value_def numeral_2_eq_2)

lemma egreedy_policy_zeros:
  assumes "\<not> floats g (consumed g) < epsilon" "s = 0 \<or> s = 1"
  shows "egreedy_policy s [[0, 0], [0, 0]] epsilon g = Inr (0, advance g)"
  using assms by (auto simp: egreedy_policy_def rand_def get_row_def norm_index_def bind_err_def
      np_argmax_def)

lemma sarsa_scenario:
  assumes sc: "scenario env e"
    and d0: "\<not> floats g (consumed g) < epsilon"
    and d1: "\<not> floats g (Suc (consumed g)) < epsilon"
  shows "sarsa env e g alpha gamma epsilon 1 = Some (Inr ([[alpha, 0], [0, 0]], [1]))"
proof -
  obtain e1 where r: "reset env e = (0, e1)" using sc by (cases "reset env e") (auto simp: scenario_def)
  obtain e2 where s: "step env e1 0 = ((1, 1, True), e2)"
    using sc r by (cases "step env e1 0") (auto simp: scenario_def)
  let ?v = "\<lparr>env_s = e1, rng_s = advance g, Q_s = [[0, 0], [0, 0]], state_s = 0, action_s = 0,
            sum_rewards_s = [0]\<rparr>"
  have d1': "\<not> floats (advance g) (consumed (advance g)) < epsilon"
    using d1 by (simp add: advance_def)
  have stp: "sarsa_step env alpha gamma epsilon 0 ?v =
      Inr (\<lparr>env_s = e2, rng_s = advance (advance g), Q_s = [[alpha, 0], [0, 0]], state_s = 1,
            action_s = 0, sum_rewards_s = [1]\<rparr>, True)"
    using s egreedy_policy_zeros [OF d1', of 1]
    by (simp add: sarsa_step_def bind_err_def get_item_def get_row_def norm_index_def add_item_def
        add_at_def)
  have w: "while_true (sarsa_step env alpha gamma epsilon 0) ?v =
      Some (Inr \<lparr>env_s = e2, rng_s = advance (advance g), Q_s = [[alpha, 0], [0, 0]], state_s = 1,
            action_s = 0, sum_rewards_s = [1]\<rparr>)"
    by (subst while_true.simps) (simp add: stp)
  have ep: "sarsa_episode env alpha gamma epsilon 0
        \<lparr>env_s = e, rng_s = g, Q_s = [[0, 0], [0, 0]], state_s = 0, action_s = 0, sum_rewards_s = []\<rparr>
      = Some (Inr \<lparr>env_s = e2, rng_s = advance (advance g), Q_s = [[alpha, 0], [0, 0]], state_s = 1,
            action_s = 0, sum_rewards_s = [1]\<rparr>)"
    using r egreedy_policy_zeros [OF d0, of 0] w by (simp add: sarsa_episode_def)
  have u: "[0..<nat 1] = [0]" by simp
  show ?thesis
    by (simp add: sarsa_def zero_value_scenario [OF sc] u ep)
qed

lemma qlearning_scenario:
  assumes sc: "scenario env e"
    and d0: "\<not> floats g (consumed g) < epsilon"
  shows "qlearning env e g alpha gamma epsilon 1 = Some (Inr ([[alpha, 0], [0, 0]], [1]))"
proof -
  obtain e1 where r: "reset env e = (0, e1)" using sc by (cases "reset env e") (auto simp: scenario_def)
  obtain e2 where s: "step env e1 0 = ((1, 1, True), e2)"
    using sc r by (cases "step env e1 0") (auto simp: scenario_def)
  let ?v = "\<lparr>env_q = e1, rng_q = g, Q_q = [[0, 0], [0, 0]], state_q = 0, sum_rewards_q = [0]\<rparr>"
  have stp: "qlearning_step env alpha gamma epsilon 0 ?v =
      Inr (\<lparr>env_q = e2, rng_q = advance g, Q_q = [[alpha, 0], [0, 0]], state_q = 1,
            sum_rewards_q = [1]\<rparr>, True)"
    using s egreedy_policy_zeros [OF d0, of 0]
    by (simp add: qlearning_step_def bind_err_def get_item_def get_row_def norm_index_def add_item_def
        add_at_def np_argmax_def)
  have w: "while_true (qlearning_step env alpha gamma epsilon 0) ?v =
      Some (Inr \<lparr>env_q = e2, rng_q = advance g, Q_q = [[alpha, 0], [0, 0]], state_q = 1,
            sum_rewards_q = [1]\<rparr>)"
    by (subst while_true.simps) (simp add: stp)
  have ep: "qlearning_episode env alpha gamma epsilon 0
        \<lparr>env_q = e, rng_q = g, Q_q = [[0, 0], [0, 0]], state_q = 0, sum_rewards_q = []\<rparr>
      = Some (Inr \<lparr>env_q = e2, rng_q = advance g, Q_q = [[alpha, 0], [0, 0]], state_q = 1,
            sum_rewards_q = [1]\<rparr>)"
    using r w by (simp add: qlearning_episode_def)
  have u: "[0..<nat 1] = [0]" by simp
  show ?thesis
    by (simp add: qlearning_def zero_value_scenario [OF sc] u ep)
qed

lemma double_qlearning_scenario_tables:
  assumes sc: "scenario env e"
    and d0: "\<not> floats g (consumed g) < epsilon"
  shows "\<exists>v. for_each (double_qlearning_episode env alpha gamma epsilon) [0..<nat 1]
            \<lparr>env_d = e, rng_d = g, Q1_d = [[0, 0], [0, 0]], Q2_d = [[0, 0], [0, 0]], state_d = 0,
             sum_rewards_d = []\<rparr> = Some (Inr v) \<and> sum_rewards_d v = [1] \<and>
           (if floats g (Suc (consumed g)) < 1/2
            then Q1_d v = [[alpha, 0], [0, 0]] \<and> Q2_d v = [[0, 0], [0, 0]]
            else Q1_d v = [[0, 0], [0, 0]] \<and> Q2_d v = [[alpha, 0], [0, 0]])"
proof -
  obtain e1 where r: "reset env e = (0, e1)" using sc by (cases "reset env e") (auto simp: scenario_def)
  obtain e2 where s: "step env e1 0 = ((1, 1, True), e2)"
    using sc r by (cases "step env e1 0") (auto simp: scenario_def)
  let ?v = "\<lparr>env_d = e1, rng_d = g, Q1_d = [[0, 0], [0, 0]], Q2_d = [[0, 0], [0, 0]], state_d = 0,
            sum_rewards_d = [0]\<rparr>"
  let ?Q1 = "if floats g (Suc (consumed g)) < 1/2 then [[alpha, 0], [0, 0]] else [[0, 0], [0, 0]]"
  let ?Q2 = "if floats g (Suc (consumed g)) < 1/2 then [[0, 0], [0, 0]] else [[alpha, 0], [0, 0]]"
  let ?v' = "\<lparr>env_d = e2, rng_d = advance (advance g), Q1_d = ?Q1, Q2_d = ?Q2, state_d = 1,
            sum_rewards_d = [1]\<rparr>"
  have ta: "table_add [[0, 0], [0, 0]] [[0, 0], [0, 0]] = [[0, 0], [0, 0]]"
    by (simp add: table_add_def)
  have stp: "double_qlearning_step env alpha gamma epsilon 0 ?v = Inr (?v', True)"
    using s egreedy_policy_zeros [OF d0, of 0]
    by (simp add: double_qlearning_step_def ta bind_err_def get_item_def get_row_def norm_index_def
        add_item_def add_at_def np_argmax_def rand_def advance_def)
  have w: "while_true (double_qlearning_step env alpha gamma epsilon 0) ?v = Some (Inr ?v')"
    by (subst while_true.simps) (simp add: stp)
  have ep: "double_qlearning_episode env alpha gamma epsilon 0
        \<lparr>env_d = e, rng_d = g, Q1_d = [[0, 0], [0, 0]], Q2_d = [[0, 0], [0, 0]], state_d = 0,
             sum_rewards_d = []\<rparr> = Some (Inr ?v')"
    using r w by (simp add: double_qlearning_episode_def)
  have u: "[0..<nat 1] = [0]" by simp
  show ?thesis
    by (simp add: u ep)
qed

lemma double_qlearning_scenario:
  assumes sc: "scenario env e"
    and d0: "\<not> floats g (consumed g) < epsilon"
  shows "double_qlearning env e g alpha gamma epsilon 1 = Some (Inr ([[alpha / 2, 0], [0, 0]], [1]))"
proof -
  from double_qlearning_scenario_tables [OF sc d0, of alpha gamma]
  obtain v where v: "for_each (double_qlearning_episode env alpha gamma epsilon) [0..<nat 1]
            \<lparr>env_d = e, rng_d = g, Q1_d = [[0, 0], [0, 0]], Q2_d = [[0, 0], [0, 0]], state_d = 0,
             sum_rewards_d = []\<rparr> = Some (Inr v)" "sum_rewards_d v = [1]"
     "if floats g (Suc (consumed g)) < 1/2
            then Q1_d v = [[alpha, 0], [0, 0]] \<and> Q2_d v = [[0, 0], [0, 0]]
            else Q1_d v = [[0, 0], [0, 0]] \<and> Q2_d v = [[alpha, 0], [0, 0]]" by blast
  from v(3) have "table_div (table_add (Q1_d v) (Q2_d v)) 2 = [[alpha / 2, 0], [0, 0]]"
    by (auto simp: table_div_def table_add_def split: if_splits)
  with v(1,2) show ?thesis
    by (simp add: double_qlearning_def zero_value_scenario [OF sc])
qed

lemma two_state_env_scenario: "scenario two_state_env e"
  by (simp add: scenario_def two_state_env_def)

lemma table_average_zero:
  "table_div (table_add (replicate n (replicate m 0)) (replicate n (replicate m 0))) 2
     = replicate n (replicate m 0)"
  by (simp add: table_div_def table_add_def zip_replicate map_replicate_const)

lemma no_episodes:
  assumes "num_episodes \<le> 0" "0 \<le> nS env" "0 \<le> nA env"
  shows "sarsa env e g alpha gamma epsilon num_episodes
           = Some (Inr (replicate (nat (nS env)) (replicate (nat (nA env)) 0), []))"
    and "qlearning env e g alpha gamma epsilon num_episodes
           = Some (Inr (replicate (nat (nS env)) (replicate (nat (nA env)) 0), []))"
    and "double_qlearning env e g alpha gamma epsilon num_episodes
           = Some (Inr (replicate (nat (nS env)) (replicate (nat (nA env)) 0), []))"
  using assms
  by (simp_all add: sarsa_def qlearning_def double_qlearning_def zero_value_def table_average_zero)

text \<open>
  C9 does not hold for \<open>double_qlearning\<close>: on the scenario with gamma = 1,
  alpha = 0.5, epsilon = 0 and one episode, the table it returns has 0.25 at \<open>[0,0]\<close>,
  the average of the updated table's 0.5 and the other table's 0.
\<close>

theorem double_qlearning_scenario_quarter:
  "double_qlearning two_state_env 0 (const_rng (1/4) 0) (1/2) 1 0 1
     = Some (Inr ([[1/4, 0], [0, 0]], [1]))"
proof -
  have "\<not> floats (const_rng (1/4) 0) (consumed (const_rng (1/4) 0)) < (0::real)"
    by (simp add: const_rng_def)
  from double_qlearning_scenario [OF two_state_env_scenario this, of 0 "1/2" 1]
  show ?thesis by simp
qed

text \<open>
  C9, as the code has it: on every environment that meets the scenario, with gamma = 1,
  alpha = 0.5, epsilon = 0, one episode and draws in \<open>[0, 1)\<close>, the episode starts with
  action 0; \<open>sarsa\<close> and \<open>qlearning\<close> return a table with \<open>table[0,0] = 0.5\<close>;
  \<open>double_qlearning\<close> leaves 0.5 in the one of its two tables that the coin picked, 0 in
  the other, and returns their average, with \<open>table[0,0] = 0.25\<close>.
\<close>

theorem scenario_one_episode:
  assumes "scenario env e" and "0 \<le> floats g (consumed g)" and "0 \<le> floats g (Suc (consumed g))"
  shows "sarsa env e g (1/2) 1 0 1 = Some (Inr ([[1/2, 0], [0, 0]], [1])) \<and>
         qlearning env e g (1/2) 1 0 1 = Some (Inr ([[1/2, 0], [0, 0]], [1])) \<and>
         double_qlearning env e g (1/2) 1 0 1 = Some (Inr ([[1/4, 0], [0, 0]], [1])) \<and>
         (\<exists>v. for_each (double_qlearning_episode env (1/2) 1 0) [0..<nat 1]
                 \<lparr>env_d = e, rng_d = g, Q1_d = [[0, 0], [0, 0]], Q2_d = [[0, 0], [0, 0]],
                  state_d = 0, sum_rewards_d = []\<rparr> = Some (Inr v) \<and>
              (if floats g (Suc (consumed g)) < 1/2
               then Q1_d v ! 0 ! 0 = 1/2 \<and> Q2_d v ! 0 ! 0 = 0
               else Q1_d v ! 0 ! 0 = 0 \<and> Q2_d v ! 0 ! 0 = 1/2))"
proof -
  have d0: "\<not> floats g (consumed g) < 0" and d1: "\<not> floats g (Suc (consumed g)) < 0"
    using assms by simp_all
  from double_qlearning_scenario_tables [OF assms(1) d0, of "1/2" 1]
  have "\<exists>v. for_each (double_qlearning_episode env (1/2) 1 0) [0..<nat 1]
                 \<lparr>env_d = e, rng_d = g, Q1_d = [[0, 0], [0, 0]], Q2_d = [[0, 0], [0, 0]],
                  state_d = 0, sum_rewards_d = []\<rparr> = Some (Inr v) \<and>
              (if floats g (Suc (consumed g)) < 1/2
               then Q1_d v ! 0 ! 0 = 1/2 \<and> Q2_d v ! 0 ! 0 = 0
               else Q1_d v ! 0 ! 0 = 0 \<and> Q2_d v ! 0 ! 0 = 1/2)"
    by (auto split: if_splits)
  with sarsa_scenario [OF assms(1) d0 d1, of "1/2" 1] qlearning_scenario [OF assms(1) d0, of "1/2" 1]
    double_qlearning_scenario [OF assms(1) d0, of "1/2" 1]
  show ?thesis by simp
qed

theorem scenario_one_episode_witness:
  "sarsa two_state_env 0 (const_rng (3/4) 0) (1/2) 1 0 1 = Some (Inr ([[1/2, 0], [0, 0]], [1])) \<and>
   qlearning two_state_env 0 (const_rng (3/4) 0) (1/2) 1 0 1 = Some (Inr ([[1/2, 0], [0, 0]], [1])) \<and>
   double_qlearning two_state_env 0 (const_rng (3/4) 0) (1/2) 1 0 1
     = Some (Inr ([[1/4, 0], [0, 0]], [1]))"
proof -
  have "0 \<le> floats (const_rng (3/4) 0) (consumed (const_rng (3/4) 0))"
    "0 \<le> floats (const_rng (3/4) 0) (Suc (consumed (const_rng (3/4) 0)))"
    by (simp_all add: const_rng_def)
  from scenario_one_episode [OF two_state_env_scenario this] show ?thesis by simp
qed
subsection \<open>Every run on an episodic environment returns\<close>

lemma episodic_env_reset:
  assumes "episodic_env env fuel" "reset env e = (s, e1)"
  shows "0 \<le> s \<and> s < nS env"
proof -
  from assms(1) have "\<forall>e. 0 \<le> fst (reset env e) \<and> fst (reset env e) < nS env"
    by (simp add: episodic_env_def)
  from this [rule_format, of e] assms(2) show ?thesis by simp
qed

lemma episodic_env_sizes:
  assumes "episodic_env env fuel"
  shows "0 < nS env" "0 < nA env"
proof -
  obtain s e1 where "reset env undefined = (s, e1)" by (cases "reset env undefined") auto
  from episodic_env_reset [OF assms this] show "0 < nS env" by linarith
  from assms show "0 < nA env" by (simp add: episodic_env_def)
qed

lemma episodic_env_step:
  assumes "episodic_env env fuel" "0 \<le> a" "a < nA env" "step env e a = ((s', r, d), e')"
  shows "0 \<le> s' \<and> s' < nS env \<and> (\<not> d \<longrightarrow> fuel e' < fuel e)"
proof -
  from assms(1) have "\<forall>e a. 0 \<le> a \<and> a < nA env \<longrightarrow>
         (case step env e a of ((s', r, d), e') \<Rightarrow>
            0 \<le> s' \<and> s' < nS env \<and> (\<not> d \<longrightarrow> fuel e' < fuel e))"
    by (simp add: episodic_env_def)
  from this [rule_format, of a e] assms(2,3,4) show ?thesis by simp
qed

lemma zero_value_episodic:
  assumes "episodic_env env fuel"
  shows "zero_value env = Inr (replicate (nat (nS env)) (replicate (nat (nA env)) 0))"
  using episodic_env_sizes [OF assms] by (simp add: zero_value_def)

lemma sarsa_step_total:
  assumes ev: "episodic_env env fuel"
    and sh: "table_shape (nat (nS env)) (nat (nA env)) (Q_s v)"
    and s: "0 \<le> state_s v" "state_s v < nS env"
    and a: "0 \<le> action_s v" "action_s v < nA env"
    and t: "length (sum_rewards_s v) = Suc t"
  shows "\<exists>v' d. sarsa_step env alpha gamma epsilon t v = Inr (v', d) \<and>
           table_shape (nat (nS env)) (nat (nA env)) (Q_s v') \<and>
           0 \<le> state_s v' \<and> state_s v' < nS env \<and> 0 \<le> action_s v' \<and> action_s v' < nA env \<and>
           length (sum_rewards_s v') = Suc t \<and> (\<not> d \<longrightarrow> fuel (env_s v') < fuel (env_s v))"
proof -
  note sz = episodic_env_sizes [OF ev]
  obtain s' r d e' where st: "step env (env_s v) (action_s v) = ((s', r, d), e')"
    by (cases "step env (env_s v) (action_s v)") auto
  from episodic_env_step [OF ev a st]
  have s': "0 \<le> s'" "s' < nS env" and dec: "\<not> d \<longrightarrow> fuel e' < fuel (env_s v)" by auto
  have m: "0 < nat (nA env)" using sz by simp
  have si: "state_s v < int (nat (nS env))" "action_s v < int (nat (nA env))" "s' < int (nat (nS env))"
    using s a s' by simp_all
  from egreedy_policy_shape [OF sh m s'(1) si(3), of epsilon "rng_s v"]
  obtain a' g' where eg: "egreedy_policy s' (Q_s v) epsilon (rng_s v) = Inr (a', g')"
    and a': "0 \<le> a'" "a' < int (nat (nA env))" by blast
  have tl: "t < length (sum_rewards_s v)" using t by simp
  note stp = sarsa_step_in_range [OF sh s(1) si(1) a(1) si(2) st s'(1) si(3) eg a' tl,
      of alpha gamma]
  show ?thesis
    using stp sh s' a' dec t sz
    by (simp add: table_shape_update)
qed

lemma sarsa_episode_total:
  fixes env :: "'a env" and v :: "'a sarsa_vars"
  assumes ev: "episodic_env env fuel"
    and sh: "table_shape (nat (nS env)) (nat (nA env)) (Q_s v)"
    and t: "length (sum_rewards_s v) = t"
  shows "\<exists>v'. sarsa_episode env alpha gamma epsilon t v = Some (Inr v') \<and>
           table_shape (nat (nS env)) (nat (nA env)) (Q_s v') \<and>
           length (sum_rewards_s v') = Suc t"
proof -
  note sz = episodic_env_sizes [OF ev]
  obtain s0 e1 where r: "reset env (env_s v) = (s0, e1)" by (cases "reset env (env_s v)") auto
  from episodic_env_reset [OF ev r] have s0: "0 \<le> s0" "s0 < nS env" by auto
  have m: "0 < nat (nA env)" using sz by simp
  have si: "s0 < int (nat (nS env))" using s0 by simp
  from egreedy_policy_shape [OF sh m s0(1) si, of epsilon "rng_s v"]
  obtain a0 g1 where eg: "egreedy_policy s0 (Q_s v) epsilon (rng_s v) = Inr (a0, g1)"
    and a0: "0 \<le> a0" "a0 < int (nat (nA env))" by blast
  let ?v0 = "v\<lparr>env_s := e1, rng_s := g1, state_s := s0, action_s := a0,
               sum_rewards_s := sum_rewards_s v @ [0]\<rparr>"
  let ?I = "\<lambda>v :: 'a sarsa_vars. table_shape (nat (nS env)) (nat (nA env)) (Q_s v) \<and>
           0 \<le> state_s v \<and> state_s v < nS env \<and> 0 \<le> action_s v \<and> action_s v < nA env \<and>
           length (sum_rewards_s v) = Suc t"
  have i0: "?I ?v0" using sh s0 a0 t sz by simp
  have "\<exists>v'. while_true (sarsa_step env alpha gamma epsilon t) ?v0 = Some (Inr v') \<and> ?I v'"
  proof (rule while_true_terminates [where I = ?I and f = "\<lambda>v. fuel (env_s v)", OF i0])
    fix w assume "?I w"
    with sarsa_step_total [OF ev, of w t alpha gamma epsilon]
    show "\<exists>s' d. sarsa_step env alpha gamma epsilon t w = Inr (s', d) \<and> ?I s' \<and>
            (\<not> d \<longrightarrow> fuel (env_s s') < fuel (env_s w))"
      by blast
  qed
  then show ?thesis
    using r eg by (auto simp: sarsa_episode_def)
qed

lemma sarsa_total:
  fixes env :: "'a env"
  assumes ev: "episodic_env env fuel"
  shows "\<exists>Q tr. sarsa env e g alpha gamma epsilon num_episodes = Some (Inr (Q, tr)) \<and>
           table_shape (nat (nS env)) (nat (nA env)) Q \<and> length tr = nat num_episodes"
proof -
  let ?J = "\<lambda>t (v :: 'a sarsa_vars). table_shape (nat (nS env)) (nat (nA env)) (Q_s v) \<and>
             length (sum_rewards_s v) = t"
  let ?v0 = "\<lparr>env_s = e, rng_s = g, Q_s = replicate (nat (nS env)) (replicate (nat (nA env)) 0),
             state_s = 0, action_s = 0, sum_rewards_s = []\<rparr>"
  have j0: "?J 0 ?v0" by (simp add: table_shape_zero)
  have "\<exists>v'. for_each (sarsa_episode env alpha gamma epsilon) [0..<0 + nat num_episodes] ?v0
            = Some (Inr v') \<and> ?J (0 + nat num_episodes) v'"
  proof (rule for_each_upt_terminates [where J = ?J, OF j0])
    fix t w assume "?J t w"
    with sarsa_episode_total [OF ev, of w t alpha gamma epsilon]
    show "\<exists>s'. sarsa_episode env alpha gamma epsilon t w = Some (Inr s') \<and> ?J (Suc t) s'"
      by blast
  qed
  then show ?thesis
    by (auto simp: sarsa_def zero_value_episodic [OF ev])
qed

lemma qlearning_step_total:
  fixes env :: "'a env" and v :: "'a qlearning_vars"
  assumes ev: "episodic_env env fuel"
    and sh: "table_shape (nat (nS env)) (nat (nA env)) (Q_q v)"
    and s: "0 \<le> state_q v" "state_q v < nS env"
    and t: "length (sum_rewards_q v) = Suc t"
  shows "\<exists>v' d. qlearning_step env alpha gamma epsilon t v = Inr (v', d) \<and>
           table_shape (nat (nS env)) (nat (nA env)) (Q_q v') \<and>
           0 \<le> state_q v' \<and> state_q v' < nS env \<and>
           length (sum_rewards_q v') = Suc t \<and> (\<not> d \<longrightarrow> fuel (env_q v') < fuel (env_q v))"
proof -
  note sz = episodic_env_sizes [OF ev]
  have m: "0 < nat (nA env)" using sz by simp
  have si: "state_q v < int (nat (nS env))" using s by simp
  from egreedy_policy_shape [OF sh m s(1) si, of epsilon "rng_q v"]
  obtain a g' where eg: "egreedy_policy (state_q v) (Q_q v) epsilon (rng_q v) = Inr (a, g')"
    and a: "0 \<le> a" "a < int (nat (nA env))" by blast
  have a2: "a < nA env" using a sz by simp
  obtain s' r d e' where st: "step env (env_q v) a = ((s', r, d), e')"
    by (cases "step env (env_q v) a") auto
  from episodic_env_step [OF ev a(1) a2 st]
  have s': "0 \<le> s'" "s' < nS env" and dec: "\<not> d \<longrightarrow> fuel e' < fuel (env_q v)" by auto
  have si': "s' < int (nat (nS env))" using s' by simp
  from np_argmax_shape [OF sh m s'(1) si']
  obtain k where k: "np_argmax (Q_q v ! nat s') = Inr k" "k < nat (nA env)" by blast
  have tl: "t < length (sum_rewards_q v)" using t by simp
  note stp = qlearning_step_in_range [OF sh s(1) si eg a st s'(1) si' k tl, of alpha gamma]
  show ?thesis
    using stp sh s' dec t
    by (simp add: table_shape_update)
qed

lemma qlearning_episode_total:
  fixes env :: "'a env" and v :: "'a qlearning_vars"
  assumes ev: "episodic_env env fuel"
    and sh: "table_shape (nat (nS env)) (nat (nA env)) (Q_q v)"
    and t: "length (sum_rewards_q v) = t"
  shows "\<exists>v'. qlearning_episode env alpha gamma epsilon t v = Some (Inr v') \<and>
           table_shape (nat (nS env)) (nat (nA env)) (Q_q v') \<and>
           length (sum_rewards_q v') = Suc t"
proof -
  obtain s0 e1 where r: "reset env (env_q v) = (s0, e1)" by (cases "reset env (env_q v)") auto
  from episodic_env_reset [OF ev r] have s0: "0 \<le> s0" "s0 < nS env" by auto
  let ?v0 = "v\<lparr>env_q := e1, state_q := s0, sum_rewards_q := sum_rewards_q v @ [0]\<rparr>"
  let ?I = "\<lambda>v :: 'a qlearning_vars. table_shape (nat (nS env)) (nat (nA env)) (Q_q v) \<and>
           0 \<le> state_q v \<and> state_q v < nS env \<and> length (sum_rewards_q v) = Suc t"
  have i0: "?I ?v0" using sh s0 t by simp
  have "\<exists>v'. while_true (qlearning_step env alpha gamma epsilon t) ?v0 = Some (Inr v') \<and> ?I v'"
  proof (rule while_true_terminates [where I = ?I and f = "\<lambda>v. fuel (env_q v)", OF i0])
    fix w assume "?I w"
    with qlearning_step_total [OF ev, of w t alpha gamma epsilon]
    show "\<exists>s' d. qlearning_step env alpha gamma epsilon t w = Inr (s', d) \<and> ?I s' \<and>
            (\<not> d \<longrightarrow> fuel (env_q s') < fuel (env_q w))"
      by blast
  qed
  then show ?thesis
    using r by (auto simp: qlearning_episode_def)
qed

lemma qlearning_total:
  fixes env :: "'a env"
  assumes ev: "episodic_env env fuel"
  shows "\<exists>Q tr. qlearning env e g alpha gamma epsilon num_episodes = Some (Inr (Q, tr)) \<and>
           table_shape (nat (nS env)) (nat (nA env)) Q \<and> length tr = nat num_episodes"
proof -
  let ?J = "\<lambda>t (v :: 'a qlearning_vars). table_shape (nat (nS env)) (nat (nA env)) (Q_q v) \<and>
             length (sum_rewards_q v) = t"
  let ?v0 = "\<lparr>env_q = e, rng_q = g, Q_q = replicate (nat (nS env)) (replicate (nat (nA env)) 0),
             state_q = 0, sum_rewards_q = []\<rparr>"
  have j0: "?J 0 ?v0" by (simp add: table_shape_zero)
  have "\<exists>v'. for_each (qlearning_episode env alpha gamma epsilon) [0..<0 + nat num_episodes] ?v0
            = Some (Inr v') \<and> ?J (0 + nat num_episodes) v'"
  proof (rule for_each_upt_terminates [where J = ?J, OF j0])
    fix t w assume "?J t w"
    with qlearning_episode_total [OF ev, of w t alpha gamma epsilon]
    show "\<exists>s'. qlearning_episode env alpha gamma epsilon t w = Some (Inr s') \<and> ?J (Suc t) s'"
      by blast
  qed
  then show ?thesis
    by (auto simp: qlearning_def zero_value_episodic [OF ev])
qed

lemma double_qlearning_step_total:
  fixes env :: "'a env" and v :: "'a double_vars"
  assumes ev: "episodic_env env fuel"
    and sh1: "table_shape (nat (nS env)) (nat (nA env)) (Q1_d v)"
    and sh2: "table_shape (nat (nS env)) (nat (nA env)) (Q2_d v)"
    and s: "0 \<le> state_d v" "state_d v < nS env"
    and t: "length (sum_rewards_d v) = Suc t"
  shows "\<exists>v' d. double_qlearning_step env alpha gamma epsilon t v = Inr (v', d) \<and>
           table_shape (nat (nS env)) (nat (nA env)) (Q1_d v') \<and>
           table_shape (nat (nS env)) (nat (nA env)) (Q2_d v') \<and>
           0 \<le> state_d v' \<and> state_d v' < nS env \<and>
           length (sum_rewards_d v') = Suc t \<and> (\<not> d \<longrightarrow> fuel (env_d v') < fuel (env_d v))"
proof -
  note sz = episodic_env_sizes [OF ev]
  have m: "0 < nat (nA env)" using sz by simp
  have si: "state_d v < int (nat (nS env))" using s by simp
  from egreedy_policy_shape [OF table_add_shape [OF sh1 sh2] m s(1) si, of epsilon "rng_d v"]
  obtain a g1 where eg: "egreedy_policy (state_d v) (table_add (Q1_d v) (Q2_d v)) epsilon (rng_d v)
      = Inr (a, g1)"
    and a: "0 \<le> a" "a < int (nat (nA env))" by blast
  have a2: "a < nA env" using a sz by simp
  obtain s' r d e' where st: "step env (env_d v) a = ((s', r, d), e')"
    by (cases "step env (env_d v) a") auto
  from episodic_env_step [OF ev a(1) a2 st]
  have s': "0 \<le> s'" "s' < nS env" and dec: "\<not> d \<longrightarrow> fuel e' < fuel (env_d v)" by auto
  have si': "s' < int (nat (nS env))" using s' by simp
  have tl: "t < length (sum_rewards_d v)" using t by simp
  show ?thesis
  proof (cases "fst (rand g1) < 1/2")
    case True
    from np_argmax_shape [OF sh1 m s'(1) si']
    obtain k where k: "np_argmax (Q1_d v ! nat s') = Inr k" "k < nat (nA env)" by blast
    note stp = double_qlearning_step_first [OF sh1 sh2 s(1) si eg a st s'(1) si' True k tl,
        of alpha gamma]
    show ?thesis
      using stp sh1 sh2 s' dec t
      by (simp add: table_shape_update)
  next
    case False
    from np_argmax_shape [OF sh2 m s'(1) si']
    obtain k where k: "np_argmax (Q2_d v ! nat s') = Inr k" "k < nat (nA env)" by blast
    note stp = double_qlearning_step_second [OF sh1 sh2 s(1) si eg a st s'(1) si' False k tl,
        of alpha gamma]
    show ?thesis
      using stp sh1 sh2 s' dec t
      by (simp add: table_shape_update)
  qed
qed

lemma double_qlearning_episode_total:
  fixes env :: "'a env" and v :: "'a double_vars"
  assumes ev: "episodic_env env fuel"
    and sh1: "table_shape (nat (nS env)) (nat (nA env)) (Q1_d v)"
    and sh2: "table_shape (nat (nS env)) (nat (nA env)) (Q2_d v)"
    and t: "length (sum_rewards_d v) = t"
  shows "\<exists>v'. double_qlearning_episode env alpha gamma epsilon t v = Some (Inr v') \<and>
           table_shape (nat (nS env)) (nat (nA env)) (Q1_d v') \<and>
           table_shape (nat (nS env)) (nat (nA env)) (Q2_d v') \<and>
           length (sum_rewards_d v') = Suc t"
proof -
  obtain s0 e1 where r: "reset env (env_d v) = (s0, e1)" by (cases "reset env (env_d v)") auto
  from episodic_env_reset [OF ev r] have s0: "0 \<le> s0" "s0 < nS env" by auto
  let ?v0 = "v\<lparr>env_d := e1, state_d := s0, sum_rewards_d := sum_rewards_d v @ [0]\<rparr>"
  let ?I = "\<lambda>v :: 'a double_vars. table_shape (nat (nS env)) (nat (nA env)) (Q1_d v) \<and>
           table_shape (nat (nS env)) (nat (nA env)) (Q2_d v) \<and>
           0 \<le> state_d v \<and> state_d v < nS env \<and> length (sum_rewards_d v) = Suc t"
  have i0: "?I ?v0" using sh1 sh2 s0 t by simp
  have "\<exists>v'. while_true (double_qlearning_step env alpha gamma epsilon t) ?v0 = Some (Inr v') \<and> ?I v'"
  proof (rule while_true_terminates [where I = ?I and f = "\<lambda>v. fuel (env_d v)", OF i0])
    fix w assume "?I w"
    with double_qlearning_step_total [OF ev, of w t alpha gamma epsilon]
    show "\<exists>s' d. double_qlearning_step env alpha gamma epsilon t w = Inr (s', d) \<and> ?I s' \<and>
            (\<not> d \<longrightarrow> fuel (env_d s') < fuel (env_d w))"
      by blast
  qed
  then show ?thesis
    using r by (auto simp: double_qlearning_episode_def)
qed

lemma double_qlearning_total:
  fixes env :: "'a env"
  assumes ev: "episodic_env env fuel"
  shows "\<exists>Q tr. double_qlearning env e g alpha gamma epsilon num_episodes = Some (Inr (Q, tr)) \<and>
           table_shape (nat (nS env)) (nat (nA env)) Q \<and> length tr = nat num_episodes"
proof -
  let ?J = "\<lambda>t (v :: 'a double_vars). table_shape (nat (nS env)) (nat (nA env)) (Q1_d v) \<and>
             table_shape (nat (nS env)) (nat (nA env)) (Q2_d v) \<and>
             length (sum_rewards_d v) = t"
  let ?Z = "replicate (nat (nS env)) (replicate (nat (nA env)) (0::real))"
  let ?v0 = "\<lparr>env_d = e, rng_d = g, Q1_d = ?Z, Q2_d = ?Z, state_d = 0, sum_rewards_d = []\<rparr>"
  have j0: "?J 0 ?v0" by (simp add: table_shape_zero)
  have "\<exists>v'. for_each (double_qlearning_episode env alpha gamma epsilon) [0..<0 + nat num_episodes] ?v0
            = Some (Inr v') \<and> ?J (0 + nat num_episodes) v'"
  proof (rule for_each_upt_terminates [where J = ?J, OF j0])
    fix t w assume "?J t w"
    with double_qlearning_episode_total [OF ev, of w t alpha gamma epsilon]
    show "\<exists>s'. double_qlearning_episode env alpha gamma epsilon t w = Some (Inr s') \<and> ?J (Suc t) s'"
      by blast
  qed
  then show ?thesis
    by (auto simp: double_qlearning_def zero_value_episodic [OF ev] table_div_shape table_add_shape)
qed

lemma chain_env_episodic: "episodic_env chain_env (\<lambda>e. 2 - e)"
  by (auto simp: episodic_env_def chain_env_def)

subsection \<open>The reward trace of a run that returns\<close>

lemma add_at_length: "add_at xs t r = Inr ys \<Longrightarrow> length ys = length xs"
  by (auto simp: add_at_def split: if_splits)

lemma for_each_count:
  fixes f :: "'s \<Rightarrow> nat"
  assumes run: "for_each body ts st = Some (Inr st')"
    and inc: "\<And>t s s'. body t s = Some (Inr s') \<Longrightarrow> f s' = Suc (f s)"
  shows "f st' = f st + length ts"
  using run
proof (induction ts arbitrary: st)
  case Nil
  then show ?case by simp
next
  case (Cons t ts)
  from Cons.prems obtain s1 where b: "body t st = Some (Inr s1)"
    and r: "for_each body ts s1 = Some (Inr st')"
    by (auto split: option.splits sum.splits)
  from Cons.IH [OF r] inc [OF b] show ?case by simp
qed

lemma sarsa_step_length:
  assumes "sarsa_step env alpha gamma epsilon t v = Inr (v', d)"
  shows "length (sum_rewards_s v') = length (sum_rewards_s v)"
proof -
  obtain s' r dn e' where st: "step env (env_s v) (action_s v) = ((s', r, dn), e')"
    by (cases "step env (env_s v) (action_s v)") auto
  from assms st obtain rs where "add_at (sum_rewards_s v) t r = Inr rs" "sum_rewards_s v' = rs"
    by (auto simp: sarsa_step_def bind_err_def split: sum.splits prod.splits)
  with add_at_length show ?thesis by metis
qed

lemma qlearning_step_length:
  assumes "qlearning_step env alpha gamma epsilon t v = Inr (v', d)"
  shows "length (sum_rewards_q v') = length (sum_rewards_q v)"
proof -
  from assms obtain a g' where
    eg: "egreedy_policy (state_q v) (Q_q v) epsilon (rng_q v) = Inr (a, g')"
    by (auto simp: qlearning_step_def dest!: bind_err_Inr)
  obtain s' r dn e' where st: "step env (env_q v) a = ((s', r, dn), e')"
    by (cases "step env (env_q v) a") auto
  from assms eg st obtain rs where "add_at (sum_rewards_q v) t r = Inr rs" "sum_rewards_q v' = rs"
    by (auto simp: qlearning_step_def bind_err_def split: sum.splits)
  with add_at_length show ?thesis by metis
qed

lemma double_qlearning_step_length:
  assumes "double_qlearning_step env alpha gamma epsilon t v = Inr (v', d)"
  shows "length (sum_rewards_d v') = length (sum_rewards_d v)"
proof -
  from assms obtain a g1 where
    eg: "egreedy_policy (state_d v) (table_add (Q1_d v) (Q2_d v)) epsilon (rng_d v) = Inr (a, g1)"
    by (auto simp: double_qlearning_step_def dest!: bind_err_Inr)
  obtain s' r dn e' where st: "step env (env_d v) a = ((s', r, dn), e')"
    by (cases "step env (env_d v) a") auto
  obtain c g2 where rg: "rand g1 = (c, g2)" by (cases "rand g1") auto
  from assms eg st rg obtain rs where "add_at (sum_rewards_d v) t r = Inr rs" "sum_rewards_d v' = rs"
    by (cases "c < 0.5") (auto simp: double_qlearning_step_def bind_err_def split: sum.splits)
  with add_at_length show ?thesis by metis
qed

lemma sarsa_episode_length:
  fixes env :: "'a env" and v :: "'a sarsa_vars"
  assumes run: "sarsa_episode env alpha gamma epsilon t v = Some (Inr v')"
  shows "length (sum_rewards_s v') = Suc (length (sum_rewards_s v))"
proof -
  obtain s0 e1 where r: "reset env (env_s v) = (s0, e1)" by (cases "reset env (env_s v)") auto
  from run r obtain a0 g1 where
    w: "while_true (sarsa_step env alpha gamma epsilon t)
          (v\<lparr>env_s := e1, rng_s := g1, state_s := s0, action_s := a0,
             sum_rewards_s := sum_rewards_s v @ [0]\<rparr>) = Some (Inr v')"
    by (auto simp: sarsa_episode_def split: sum.splits)
  let ?I = "\<lambda>w :: 'a sarsa_vars. length (sum_rewards_s w) = Suc (length (sum_rewards_s v))"
  show ?thesis
  proof (rule while_true_invariant [where I = ?I, OF w])
    show "?I (v\<lparr>env_s := e1, rng_s := g1, state_s := s0, action_s := a0,
             sum_rewards_s := sum_rewards_s v @ [0]\<rparr>)" by simp
  next
    fix w w' d assume "?I w" "sarsa_step env alpha gamma epsilon t w = Inr (w', d)"
    then show "?I w'" using sarsa_step_length by metis
  qed
qed

lemma qlearning_episode_length:
  fixes env :: "'a env" and v :: "'a qlearning_vars"
  assumes run: "qlearning_episode env alpha gamma epsilon t v = Some (Inr v')"
  shows "length (sum_rewards_q v') = Suc (length (sum_rewards_q v))"
proof -
  obtain s0 e1 where r: "reset env (env_q v) = (s0, e1)" by (cases "reset env (env_q v)") auto
  from run r have
    w: "while_true (qlearning_step env alpha gamma epsilon t)
          (v\<lparr>env_q := e1, state_q := s0, sum_rewards_q := sum_rewards_q v @ [0]\<rparr>) = Some (Inr v')"
    by (simp add: qlearning_episode_def)
  let ?I = "\<lambda>w :: 'a qlearning_vars. length (sum_rewards_q w) = Suc (length (sum_rewards_q v))"
  show ?thesis
  proof (rule while_true_invariant [where I = ?I, OF w])
    show "?I (v\<lparr>env_q := e1, state_q := s0, sum_rewards_q := sum_rewards_q v @ [0]\<rparr>)" by simp
  next
    fix w w' d assume "?I w" "qlearning_step env alpha gamma epsilon t w = Inr (w', d)"
    then show "?I w'" using qlearning_step_length by metis
  qed
qed

lemma double_qlearning_episode_length:
  fixes env :: "'a env" and v :: "'a double_vars"
  assumes run: "double_qlearning_episode env alpha gamma epsilon t v = Some (Inr v')"
  shows "length (sum_rewards_d v') = Suc (length (sum_rewards_d v))"
proof -
  obtain s0 e1 where r: "reset env (env_d v) = (s0, e1)" by (cases "reset env (env_d v)") auto
  from run r have
    w: "while_true (double_qlearning_step env alpha gamma epsilon t)
          (v\<lparr>env_d := e1, state_d := s0, sum_rewards_d := sum_rewards_d v @ [0]\<rparr>) = Some (Inr v')"
    by (simp add: double_qlearning_episode_def)
  let ?I = "\<lambda>w :: 'a double_vars. length (sum_rewards_d w) = Suc (length (sum_rewards_d v))"
  show ?thesis
  proof (rule while_true_invariant [where I = ?I, OF w])
    show "?I (v\<lparr>env_d := e1, state_d := s0, sum_rewards_d := sum_rewards_d v @ [0]\<rparr>)" by simp
  next
    fix w w' d assume "?I w" "double_qlearning_step env alpha gamma epsilon t w = Inr (w', d)"
    then show "?I w'" using double_qlearning_step_length by metis
  qed
qed

lemma sarsa_returns_length:
  fixes env :: "'a env"
  assumes "sarsa env e g alpha gamma epsilon num_episodes = Some (Inr (Q, tr))"
  shows "length tr = nat num_episodes"
proof -
  from assms obtain Q0 vf where
    f: "for_each (sarsa_episode env alpha gamma epsilon) [0..<nat num_episodes]
          \<lparr>env_s = e, rng_s = g, Q_s = Q0, state_s = 0, action_s = 0, sum_rewards_s = []\<rparr>
        = Some (Inr vf)" and tr: "tr = sum_rewards_s vf"
    by (auto simp: sarsa_def split: option.splits sum.splits)
  from for_each_count [where f = "\<lambda>w :: 'a sarsa_vars. length (sum_rewards_s w)", OF f]
    sarsa_episode_length tr
  show ?thesis by fastforce
qed

lemma qlearning_returns_length:
  fixes env :: "'a env"
  assumes "qlearning env e g alpha gamma epsilon num_episodes = Some (Inr (Q, tr))"
  shows "length tr = nat num_episodes"
proof -
  from assms obtain Q0 vf where
    f: "for_each (qlearning_episode env alpha gamma epsilon) [0..<nat num_episodes]
          \<lparr>env_q = e, rng_q = g, Q_q = Q0, state_q = 0, sum_rewards_q = []\<rparr>
        = Some (Inr vf)" and tr: "tr = sum_rewards_q vf"
    by (auto simp: qlearning_def split: option.splits sum.splits)
  from for_each_count [where f = "\<lambda>w :: 'a qlearning_vars. length (sum_rewards_q w)", OF f]
    qlearning_episode_length tr
  show ?thesis by fastforce
qed

lemma double_qlearning_returns_length:
  fixes env :: "'a env"
  assumes "double_qlearning env e g alpha gamma epsilon num_episodes = Some (Inr (Q, tr))"
  shows "length tr = nat num_episodes"
proof -
  from assms obtain Q0 vf where
    f: "for_each (double_qlearning_episode env alpha gamma epsilon) [0..<nat num_episodes]
          \<lparr>env_d = e, rng_d = g, Q1_d = Q0, Q2_d = Q0, state_d = 0, sum_rewards_d = []\<rparr>
        = Some (Inr vf)" and tr: "tr = sum_rewards_d vf"
    by (auto simp: double_qlearning_def split: option.splits sum.splits)
  from for_each_count [where f = "\<lambda>w :: 'a double_vars. length (sum_rewards_d w)", OF f]
    double_qlearning_episode_length tr
  show ?thesis by fastforce
qed

text \<open>
  C8: whenever \<open>sarsa\<close>, \<open>qlearning\<close> or \<open>double_qlearning\<close> returns, on any
  environment at all, the reward trace it returns has exactly as many entries as episodes
  were asked for. And on every environment that keeps its contract (\<open>episodic_env\<close>:
  states in range and episodes that end), for every positive episode count, each of the
  three does return, without raising.
\<close>

theorem reward_trace_length:
  fixes env :: "'a env"
  shows "(sarsa env e g alpha gamma epsilon num_episodes = Some (Inr (Q, tr))
            \<longrightarrow> length tr = nat num_episodes) \<and>
         (qlearning env e g alpha gamma epsilon num_episodes = Some (Inr (Q, tr))
            \<longrightarrow> length tr = nat num_episodes) \<and>
         (double_qlearning env e g alpha gamma epsilon num_episodes = Some (Inr (Q, tr))
            \<longrightarrow> length tr = nat num_episodes) \<and>
         (episodic_env env fuel \<and> 0 < num_episodes \<longrightarrow>
            (\<exists>Q tr. sarsa env e g alpha gamma epsilon num_episodes = Some (Inr (Q, tr)) \<and>
               int (length tr) = num_episodes) \<and>
            (\<exists>Q tr. qlearning env e g alpha gamma epsilon num_episodes = Some (Inr (Q, tr)) \<and>
               int (length tr) = num_episodes) \<and>
            (\<exists>Q tr. double_qlearning env e g alpha gamma epsilon num_episodes = Some (Inr (Q, tr)) \<and>
               int (length tr) = num_episodes))"
proof (intro conjI impI)
  assume "sarsa env e g alpha gamma epsilon num_episodes = Some (Inr (Q, tr))"
  then show "length tr = nat num_episodes" by (rule sarsa_returns_length)
next
  assume "qlearning env e g alpha gamma epsilon num_episodes = Some (Inr (Q, tr))"
  then show "length tr = nat num_episodes" by (rule qlearning_returns_length)
next
  assume "double_qlearning env e g alpha gamma epsilon num_episodes = Some (Inr (Q, tr))"
  then show "length tr = nat num_episodes" by (rule double_qlearning_returns_length)
next
  assume a: "episodic_env env fuel \<and> 0 < num_episodes"
  with sarsa_total [of env fuel e g alpha gamma epsilon num_episodes]
  show "\<exists>Q tr. sarsa env e g alpha gamma epsilon num_episodes = Some (Inr (Q, tr)) \<and>
            int (length tr) = num_episodes" by auto
next
  assume a: "episodic_env env fuel \<and> 0 < num_episodes"
  with qlearning_total [of env fuel e g alpha gamma epsilon num_episodes]
  show "\<exists>Q tr. qlearning env e g alpha gamma epsilon num_episodes = Some (Inr (Q, tr)) \<and>
            int (length tr) = num_episodes" by auto
next
  assume a: "episodic_env env fuel \<and> 0 < num_episodes"
  with double_qlearning_total [of env fuel e g alpha gamma epsilon num_episodes]
  show "\<exists>Q tr. double_qlearning env e g alpha gamma epsilon num_episodes = Some (Inr (Q, tr)) \<and>
            int (length tr) = num_episodes" by auto
qed

theorem reward_trace_length_witness:
  "(\<exists>Q tr. sarsa chain_env 0 (const_rng (1/20) 1) (1/2) 1 (1/10) 3 = Some (Inr (Q, tr)) \<and>
      length tr = 3) \<and>
   (\<exists>Q tr. qlearning chain_env 0 (const_rng (1/20) 1) (1/2) 1 (1/10) 3 = Some (Inr (Q, tr)) \<and>
      length tr = 3) \<and>
   (\<exists>Q tr. double_qlearning chain_env 0 (const_rng (1/20) 1) (1/2) 1 (1/10) 3 = Some (Inr (Q, tr)) \<and>
      length tr = 3)"
proof -
  have h: "episodic_env chain_env (\<lambda>e. 2 - e) \<and> (0::int) < 3"
    using chain_env_episodic by simp
  note inst = reward_trace_length [where env = chain_env and fuel = "\<lambda>e. 2 - e"
      and num_episodes = 3 and e = 0 and g = "const_rng (1/20) 1" and alpha = "1/2" and gamma = 1
      and epsilon = "1/10"]
  from inst [THEN conjunct2, THEN conjunct2, THEN conjunct2, rule_format, OF h]
  show ?thesis by auto
qed

subsection \<open>Double Q-learning: the table behind the policy and the table returned\<close>

lemma add_item_shape:
  assumes "add_item Q s a x = Inr Q'" "table_shape n m Q"
  shows "table_shape n m Q'"
  using assms
  by (auto simp: add_item_def bind_err_def table_shape_update split: sum.splits)

lemma double_qlearning_step_shape:
  assumes stp: "double_qlearning_step env alpha gamma epsilon t v = Inr (v', d)"
    and sh1: "table_shape n m (Q1_d v)" and sh2: "table_shape n m (Q2_d v)"
  shows "table_shape n m (Q1_d v') \<and> table_shape n m (Q2_d v')"
proof -
  from stp obtain a g1 where
    eg: "egreedy_policy (state_d v) (table_add (Q1_d v) (Q2_d v)) epsilon (rng_d v) = Inr (a, g1)"
    by (auto simp: double_qlearning_step_def dest!: bind_err_Inr)
  obtain s' r dn e' where st: "step env (env_d v) a = ((s', r, dn), e')"
    by (cases "step env (env_d v) a") auto
  obtain c g2 where rg: "rand g1 = (c, g2)" by (cases "rand g1") auto
  show ?thesis
  proof (cases "c < 0.5")
    case True
    with stp eg st rg obtain x Q1' where
      "add_item (Q1_d v) (state_d v) a x = Inr Q1'" "Q1_d v' = Q1'" "Q2_d v' = Q2_d v"
      by (auto simp: double_qlearning_step_def bind_err_def split: sum.splits)
    with add_item_shape sh1 sh2 show ?thesis by metis
  next
    case False
    with stp eg st rg obtain x Q2' where
      "add_item (Q2_d v) (state_d v) a x = Inr Q2'" "Q2_d v' = Q2'" "Q1_d v' = Q1_d v"
      by (auto simp: double_qlearning_step_def bind_err_def split: sum.splits)
    with add_item_shape sh1 sh2 show ?thesis by metis
  qed
qed

lemma double_qlearning_step_executes:
  assumes stp: "double_qlearning_step env alpha gamma epsilon t v = Inr (v', d)"
    and eg: "egreedy_policy (state_d v) (table_add (Q1_d v) (Q2_d v)) epsilon (rng_d v) = Inr (a, g1)"
  shows "env_d v' = snd (step env (env_d v) a)"
proof -
  obtain s' r dn e' where st: "step env (env_d v) a = ((s', r, dn), e')"
    by (cases "step env (env_d v) a") auto
  obtain c g2 where rg: "rand g1 = (c, g2)" by (cases "rand g1") auto
  from stp eg st rg show ?thesis
    by (cases "c < 0.5") (auto simp: double_qlearning_step_def bind_err_def split: sum.splits)
qed

lemma double_qlearning_episode_shape:
  fixes env :: "'a env" and v :: "'a double_vars"
  assumes run: "double_qlearning_episode env alpha gamma epsilon t v = Some (Inr v')"
    and sh: "table_shape n m (Q1_d v) \<and> table_shape n m (Q2_d v)"
  shows "table_shape n m (Q1_d v') \<and> table_shape n m (Q2_d v')"
proof -
  obtain s0 e1 where r: "reset env (env_d v) = (s0, e1)" by (cases "reset env (env_d v)") auto
  let ?v0 = "v\<lparr>env_d := e1, state_d := s0, sum_rewards_d := sum_rewards_d v @ [0]\<rparr>"
  let ?I = "\<lambda>v :: 'a double_vars. table_shape n m (Q1_d v) \<and> table_shape n m (Q2_d v)"
  from run r have w: "while_true (double_qlearning_step env alpha gamma epsilon t) ?v0 = Some (Inr v')"
    by (simp add: double_qlearning_episode_def)
  have i0: "?I ?v0" using sh by simp
  show ?thesis
  proof (rule while_true_invariant [where I = ?I, OF w i0])
    fix w w' d assume "?I w" "double_qlearning_step env alpha gamma epsilon t w = Inr (w', d)"
    then show "?I w'" using double_qlearning_step_shape by blast
  qed
qed

lemma double_qlearning_tables:
  fixes env :: "'a env"
  assumes run: "double_qlearning env e g alpha gamma epsilon num_episodes = Some (Inr (Q, tr))"
  shows "\<exists>vf. for_each (double_qlearning_episode env alpha gamma epsilon) [0..<nat num_episodes]
                 \<lparr>env_d = e, rng_d = g,
                  Q1_d = replicate (nat (nS env)) (replicate (nat (nA env)) 0),
                  Q2_d = replicate (nat (nS env)) (replicate (nat (nA env)) 0),
                  state_d = 0, sum_rewards_d = []\<rparr> = Some (Inr vf) \<and>
              table_shape (nat (nS env)) (nat (nA env)) (Q1_d vf) \<and>
              table_shape (nat (nS env)) (nat (nA env)) (Q2_d vf) \<and>
              Q = table_div (table_add (Q1_d vf) (Q2_d vf)) 2 \<and> tr = sum_rewards_d vf"
proof -
  let ?Z = "replicate (nat (nS env)) (replicate (nat (nA env)) (0::real))"
  let ?v0 = "\<lparr>env_d = e, rng_d = g, Q1_d = ?Z, Q2_d = ?Z, state_d = 0, sum_rewards_d = []\<rparr>"
  let ?I = "\<lambda>v :: 'a double_vars. table_shape (nat (nS env)) (nat (nA env)) (Q1_d v) \<and>
              table_shape (nat (nS env)) (nat (nA env)) (Q2_d v)"
  from run have z: "zero_value env = Inr ?Z"
    by (auto simp: double_qlearning_def zero_value_def split: if_splits)
  with run obtain vf where f: "for_each (double_qlearning_episode env alpha gamma epsilon)
        [0..<nat num_episodes] ?v0 = Some (Inr vf)"
    and q: "Q = table_div (table_add (Q1_d vf) (Q2_d vf)) 2" "tr = sum_rewards_d vf"
    by (auto simp: double_qlearning_def split: option.splits sum.splits)
  have i0: "?I ?v0" by (simp add: table_shape_zero)
  have "?I vf"
  proof (rule for_each_invariant [where I = ?I, OF f i0])
    fix t w w' assume "?I w" "double_qlearning_episode env alpha gamma epsilon t w = Some (Inr w')"
    then show "?I w'" using double_qlearning_episode_shape by blast
  qed
  with f q show ?thesis by blast
qed

text \<open>
  C5: in a pass of the double Q-learning loop on tables of one shape, the action that is
  executed on the environment is the one \<open>egreedy_policy\<close> returns on the elementwise
  sum \<open>Q1 + Q2\<close>; with epsilon = 0 (and the draw in \<open>[0, 1)\<close>) it is the first index
  at which the row of sums is greatest, which need not be the argmax of either table.
  And whenever \<open>double_qlearning\<close> returns, its table is the elementwise average
  \<open>(Q1 + Q2) / 2\<close> of the two tables the loop ended with, entry by entry.
\<close>

theorem double_qlearning_sum_policy_average:
  fixes env :: "'a env" and v :: "'a double_vars"
  assumes sh1: "table_shape n m (Q1_d v)" and sh2: "table_shape n m (Q2_d v)" and m: "0 < m"
    and s: "0 \<le> state_d v" "state_d v < int n"
  shows "(\<exists>a g1.
            egreedy_policy (state_d v) (table_add (Q1_d v) (Q2_d v)) epsilon (rng_d v) = Inr (a, g1) \<and>
            0 \<le> a \<and> a < int m \<and>
            (\<forall>v' d. double_qlearning_step env alpha gamma epsilon t v = Inr (v', d)
                     \<longrightarrow> env_d v' = snd (step env (env_d v) a)) \<and>
            (epsilon = 0 \<and> 0 \<le> fst (rand (rng_d v)) \<longrightarrow>
               (\<forall>j<m. Q1_d v ! nat (state_d v) ! j + Q2_d v ! nat (state_d v) ! j
                        \<le> Q1_d v ! nat (state_d v) ! nat a + Q2_d v ! nat (state_d v) ! nat a) \<and>
               (\<forall>j<nat a. Q1_d v ! nat (state_d v) ! j + Q2_d v ! nat (state_d v) ! j
                        < Q1_d v ! nat (state_d v) ! nat a + Q2_d v ! nat (state_d v) ! nat a)))
       \<and> (\<forall>Q tr. double_qlearning env e g alpha gamma epsilon num_episodes = Some (Inr (Q, tr)) \<longrightarrow>
            (\<exists>A B. (\<exists>vf. for_each (double_qlearning_episode env alpha gamma epsilon)
                            [0..<nat num_episodes]
                            \<lparr>env_d = e, rng_d = g,
                             Q1_d = replicate (nat (nS env)) (replicate (nat (nA env)) 0),
                             Q2_d = replicate (nat (nS env)) (replicate (nat (nA env)) 0),
                             state_d = 0, sum_rewards_d = []\<rparr> = Some (Inr vf) \<and>
                          Q1_d vf = A \<and> Q2_d vf = B \<and> sum_rewards_d vf = tr) \<and>
                   table_shape (nat (nS env)) (nat (nA env)) A \<and>
                   table_shape (nat (nS env)) (nat (nA env)) B \<and>
                   Q = table_div (table_add A B) 2 \<and>
                   (\<forall>i<nat (nS env). \<forall>j<nat (nA env). Q ! i ! j = (A ! i ! j + B ! i ! j) / 2)))"
proof (intro conjI allI impI)
  let ?i = "nat (state_d v)"
  let ?S = "table_add (Q1_d v) (Q2_d v)"
  have shs: "table_shape n m ?S" by (rule table_add_shape [OF sh1 sh2])
  have i: "?i < n" using s by linarith
  from egreedy_policy_shape [OF shs m s, of epsilon "rng_d v"]
  obtain a g1 where eg: "egreedy_policy (state_d v) ?S epsilon (rng_d v) = Inr (a, g1)"
    and a: "0 \<le> a" "a < int m" by blast
  have ex: "env_d v' = snd (step env (env_d v) a)"
    if "double_qlearning_step env alpha gamma epsilon t v = Inr (v', d)" for v' d
    by (rule double_qlearning_step_executes [OF that eg])
  have greedy: "(\<forall>j<m. Q1_d v ! ?i ! j + Q2_d v ! ?i ! j \<le> Q1_d v ! ?i ! nat a + Q2_d v ! ?i ! nat a) \<and>
                (\<forall>j<nat a. Q1_d v ! ?i ! j + Q2_d v ! ?i ! j < Q1_d v ! ?i ! nat a + Q2_d v ! ?i ! nat a)"
    if e0: "epsilon = 0 \<and> 0 \<le> fst (rand (rng_d v))"
  proof -
    have ni: "norm_index (length ?S) (state_d v) = Inr ?i"
      using s by (simp add: norm_index_in_range table_shape_length [OF shs])
    have len: "length (?S ! ?i) = m" by (rule table_shape_row [OF shs i])
    then have ne: "?S ! ?i \<noteq> []" using m by auto
    from e0 have ng: "\<not> fst (rand (rng_d v)) < epsilon" by simp
    from np_argmax_first_max [OF ne] obtain k where k: "np_argmax (?S ! ?i) = Inr k"
      "k < length (?S ! ?i)" "\<forall>j<length (?S ! ?i). ?S ! ?i ! j \<le> ?S ! ?i ! k"
      "\<forall>j<k. ?S ! ?i ! j < ?S ! ?i ! k" by blast
    from egreedy_policy_greedy [OF ni ne ng] k(1) eg have ak: "a = int k"
      by (simp add: bind_err_def)
    have km: "k < m" using k(2) len by simp
    have nth: "?S ! ?i ! j = Q1_d v ! ?i ! j + Q2_d v ! ?i ! j" if "j < m" for j
      by (rule table_add_nth [OF sh1 sh2 i that])
    show ?thesis
      using k(3,4) ak km len nth by auto
  qed
  show "\<exists>a g1.
            egreedy_policy (state_d v) (table_add (Q1_d v) (Q2_d v)) epsilon (rng_d v) = Inr (a, g1) \<and>
            0 \<le> a \<and> a < int m \<and>
            (\<forall>v' d. double_qlearning_step env alpha gamma epsilon t v = Inr (v', d)
                     \<longrightarrow> env_d v' = snd (step env (env_d v) a)) \<and>
            (epsilon = 0 \<and> 0 \<le> fst (rand (rng_d v)) \<longrightarrow>
               (\<forall>j<m. Q1_d v ! nat (state_d v) ! j + Q2_d v ! nat (state_d v) ! j
                        \<le> Q1_d v ! nat (state_d v) ! nat a + Q2_d v ! nat (state_d v) ! nat a) \<and>
               (\<forall>j<nat a. Q1_d v ! nat (state_d v) ! j + Q2_d v ! nat (state_d v) ! j
                        < Q1_d v ! nat (state_d v) ! nat a + Q2_d v ! nat (state_d v) ! nat a))"
    using eg a ex greedy by blast
next
  fix Q tr
  assume run: "double_qlearning env e g alpha gamma epsilon num_episodes = Some (Inr (Q, tr))"
  from double_qlearning_tables [OF run] obtain vf where
    f: "for_each (double_qlearning_episode env alpha gamma epsilon) [0..<nat num_episodes]
                 \<lparr>env_d = e, rng_d = g,
                  Q1_d = replicate (nat (nS env)) (replicate (nat (nA env)) 0),
                  Q2_d = replicate (nat (nS env)) (replicate (nat (nA env)) 0),
                  state_d = 0, sum_rewards_d = []\<rparr> = Some (Inr vf)"
    and sh: "table_shape (nat (nS env)) (nat (nA env)) (Q1_d vf)"
            "table_shape (nat (nS env)) (nat (nA env)) (Q2_d vf)"
    and q: "Q = table_div (table_add (Q1_d vf) (Q2_d vf)) 2" "tr = sum_rewards_d vf" by blast
  have ent: "Q ! i ! j = (Q1_d vf ! i ! j + Q2_d vf ! i ! j) / 2"
    if "i < nat (nS env)" "j < nat (nA env)" for i j
    using that q(1) table_div_nth [OF table_add_shape [OF sh] that] table_add_nth [OF sh that]
    by simp
  show "\<exists>A B. (\<exists>vf. for_each (double_qlearning_episode env alpha gamma epsilon)
                            [0..<nat num_episodes]
                            \<lparr>env_d = e, rng_d = g,
                             Q1_d = replicate (nat (nS env)) (replicate (nat (nA env)) 0),
                             Q2_d = replicate (nat (nS env)) (replicate (nat (nA env)) 0),
                             state_d = 0, sum_rewards_d = []\<rparr> = Some (Inr vf) \<and>
                          Q1_d vf = A \<and> Q2_d vf = B \<and> sum_rewards_d vf = tr) \<and>
                   table_shape (nat (nS env)) (nat (nA env)) A \<and>
                   table_shape (nat (nS env)) (nat (nA env)) B \<and>
                   Q = table_div (table_add A B) 2 \<and>
                   (\<forall>i<nat (nS env). \<forall>j<nat (nA env). Q ! i ! j = (A ! i ! j + B ! i ! j) / 2)"
    using f sh q ent by (intro exI [of _ "Q1_d vf"] exI [of _ "Q2_d vf"]) auto
qed

theorem double_qlearning_sum_policy_average_witness:
  "(\<exists>g1. egreedy_policy 0 (table_add [[3, 0, 2]] [[0, 3, 2]]) 0 (const_rng (1/2) 0) = Inr (2, g1)) \<and>
   np_argmax [3, 0, 2] = Inr 0 \<and> np_argmax [0, 3, 2] = Inr 1 \<and>
   (\<exists>A B. double_qlearning two_state_env 0 (const_rng (1/4) 0) (1/2) 1 0 1
             = Some (Inr (table_div (table_add A B) 2, [1])) \<and>
          table_shape 2 2 A \<and> table_shape 2 2 B)"
proof -
  let ?v = "\<lparr>env_d = 0::int, rng_d = const_rng (1/2) 0, Q1_d = [[3, 0, 2]], Q2_d = [[0, 3, 2]],
            state_d = 0, sum_rewards_d = [0]\<rparr>"
  have sh1: "table_shape 1 3 (Q1_d ?v)" and sh2: "table_shape 1 3 (Q2_d ?v)"
    by (simp_all add: table_shape_def)
  have m: "(0::nat) < 3" and s: "0 \<le> state_d ?v" "state_d ?v < int 1" by simp_all
  have d0: "\<not> floats (const_rng (1/4) 0) (consumed (const_rng (1/4) 0)) < (0::real)"
    by (simp add: const_rng_def)
  have run: "double_qlearning two_state_env 0 (const_rng (1/4) 0) (1/2) 1 0 1
      = Some (Inr ([[1/4, 0], [0, 0]], [1]))"
    using double_qlearning_scenario [OF two_state_env_scenario d0, of 0 "1/2" 1] by simp
  note inst = double_qlearning_sum_policy_average [OF sh1 sh2 m s,
      where epsilon = 0 and env = two_state_env and e = 0 and g = "const_rng (1/4) 0"
        and alpha = "1/2" and gamma = 1 and num_episodes = 1 and t = 0]
  from inst obtain a g1 where
    eg: "egreedy_policy 0 (table_add [[3, 0, 2]] [[0, 3, 2]]) 0 (const_rng (1/2) 0) = Inr (a, g1)"
    and a: "0 \<le> a" "a < 3"
    and mx: "\<forall>j<3. [3, 0, 2::real] ! j + [0, 3, 2] ! j \<le> [3, 0, 2] ! nat a + [0, 3, 2] ! nat a"
    by (auto simp: rand_def const_rng_def)
  from a have "a = 0 \<or> a = 1 \<or> a = 2" by linarith
  moreover have "(2::nat) < 3" by simp
  from mx [rule_format, OF this]
  have "[3, 0, 2::real] ! 2 + [0, 3, 2] ! 2 \<le> [3, 0, 2] ! nat a + [0, 3, 2] ! nat a" .
  ultimately have "a = 2" by auto
  with eg have A: "\<exists>g1. egreedy_policy 0 (table_add [[3, 0, 2]] [[0, 3, 2]]) 0 (const_rng (1/2) 0)
      = Inr (2, g1)" by blast
  have B: "np_argmax [3, 0, 2] = Inr 0" "np_argmax [0, 3, 2] = Inr 1"
    by (simp_all add: np_argmax_def)
  from inst [THEN conjunct2, rule_format, OF run]
  obtain TA TB where
    sh: "table_shape (nat (nS two_state_env)) (nat (nA two_state_env)) TA"
        "table_shape (nat (nS two_state_env)) (nat (nA two_state_env)) TB"
    and q: "[[1/4, 0], [0, 0]] = table_div (table_add TA TB) 2"
    by (elim exE conjE) blast
  have z: "nat (nS two_state_env) = 2" "nat (nA two_state_env) = 2"
    by (simp_all add: two_state_env_def)
  from run q sh have C: "\<exists>A B. double_qlearning two_state_env 0 (const_rng (1/4) 0) (1/2) 1 0 1
             = Some (Inr (table_div (table_add A B) 2, [1])) \<and>
          table_shape 2 2 A \<and> table_shape 2 2 B"
    unfolding z by (intro exI [of _ TA] exI [of _ TB]) simp
  from A B C show ?thesis by simp
qed

subsection \<open>No call is rejected for its configuration\<close>

lemma indexed_env_reset:
  assumes "indexed_env env" "reset env e = (s, e1)"
  shows "0 \<le> s \<and> s < nS env"
proof -
  from assms(1) have "\<forall>e. 0 \<le> fst (reset env e) \<and> fst (reset env e) < nS env"
    by (simp add: indexed_env_def)
  from this [rule_format, of e] assms(2) show ?thesis by simp
qed

lemma indexed_env_sizes:
  assumes "indexed_env env"
  shows "0 < nS env" "0 < nA env"
proof -
  obtain s e1 where "reset env undefined = (s, e1)" by (cases "reset env undefined") auto
  from indexed_env_reset [OF assms this] show "0 < nS env" by linarith
  from assms show "0 < nA env" by (simp add: indexed_env_def)
qed

lemma indexed_env_step:
  assumes "indexed_env env" "0 \<le> a" "a < nA env" "step env e a = ((s', r, d), e')"
  shows "0 \<le> s' \<and> s' < nS env"
proof -
  from assms(1) have "\<forall>e a. 0 \<le> a \<and> a < nA env \<longrightarrow>
         0 \<le> fst (fst (step env e a)) \<and> fst (fst (step env e a)) < nS env"
    by (simp add: indexed_env_def)
  from this [rule_format, of a e] assms(2,3,4) show ?thesis by simp
qed

lemma episodic_env_indexed:
  assumes "episodic_env env fuel"
  shows "indexed_env env"
proof -
  have "0 \<le> fst (fst (step env e a)) \<and> fst (fst (step env e a)) < nS env"
    if "0 \<le> a \<and> a < nA env" for e a
  proof -
    obtain s' r d e' where st: "step env e a = ((s', r, d), e')"
      by (cases "step env e a") auto
    from episodic_env_step [OF assms _ _ st] that st show ?thesis by simp
  qed
  moreover have "0 \<le> fst (reset env e) \<and> fst (reset env e) < nS env" for e
  proof -
    obtain s e1 where r: "reset env e = (s, e1)" by (cases "reset env e") auto
    from episodic_env_reset [OF assms r] r show ?thesis by simp
  qed
  ultimately show ?thesis
    using episodic_env_sizes(2) [OF assms] by (simp add: indexed_env_def)
qed

lemma zero_value_indexed:
  assumes "indexed_env env"
  shows "zero_value env = Inr (replicate (nat (nS env)) (replicate (nat (nA env)) 0))"
  using indexed_env_sizes [OF assms] by (simp add: zero_value_def)

lemma while_true_safe:
  fixes body :: "'a \<Rightarrow> error + 'a \<times> bool"
  assumes run: "while_true body st = Some r"
    and inv: "I st"
    and body: "\<And>s. I s \<Longrightarrow> \<exists>s' d. body s = Inr (s', d) \<and> I s'"
  shows "\<exists>st'. r = Inr st' \<and> I st'"
proof -
  have "body = body \<longrightarrow> I st \<longrightarrow> (\<exists>x. r = Inr x \<and> I x)"
  proof (rule while_true.raw_induct
      [where P = "\<lambda>b s r. b = body \<longrightarrow> I s \<longrightarrow> (\<exists>x. r = Inr x \<and> I x)"
         and body = body and st = st and y = r])
    show "while_true body st = Some r" by (rule run)
  next
    fix loop :: "('a \<Rightarrow> error + 'a \<times> bool) \<Rightarrow> 'a \<Rightarrow> (error + 'a) option"
    fix b s y
    assume IH: "\<And>b' s' y. loop b' s' = Some y \<Longrightarrow> b' = body \<longrightarrow> I s' \<longrightarrow> (\<exists>x. y = Inr x \<and> I x)"
      and eq: "(case b s of Inl e \<Rightarrow> Some (Inl e)
                | Inr (st', done) \<Rightarrow> if done then Some (Inr st') else loop b st') = Some y"
    show "b = body \<longrightarrow> I s \<longrightarrow> (\<exists>x. y = Inr x \<and> I x)"
    proof (intro impI)
      assume b: "b = body" and i: "I s"
      from body [OF i] obtain s' d where bs: "body s = Inr (s', d)" and i': "I s'" by blast
      show "\<exists>x. y = Inr x \<and> I x"
      proof (cases d)
        case True
        with eq bs b i' show ?thesis by auto
      next
        case False
        with eq bs b have "loop body s' = Some y" by simp
        from IH [OF this] i' show ?thesis by simp
      qed
    qed
  qed
  with inv show ?thesis by simp
qed

lemma for_each_upt_safe:
  assumes run: "for_each body [k..<k + d] st = Some r"
    and inv: "J k st"
    and body: "\<And>t s y. k \<le> t \<Longrightarrow> t < k + d \<Longrightarrow> J t s \<Longrightarrow> body t s = Some y
                 \<Longrightarrow> \<exists>s'. y = Inr s' \<and> J (Suc t) s'"
  shows "\<exists>st'. r = Inr st' \<and> J (k + d) st'"
  using run inv body
proof (induction d arbitrary: k st)
  case 0
  then show ?case by auto
next
  case (Suc d)
  have u: "[k..<k + Suc d] = k # [Suc k..<Suc k + d]" by (simp add: upt_conv_Cons)
  from Suc.prems(1) u obtain y where b: "body k st = Some y"
    by (cases "body k st") auto
  from Suc.prems(3) [of k st y] Suc.prems(2) b obtain s1 where y: "y = Inr s1" and j: "J (Suc k) s1"
    by auto
  from Suc.prems(1) u b y have r: "for_each body [Suc k..<Suc k + d] s1 = Some r" by simp
  have "\<exists>st'. r = Inr st' \<and> J (Suc k + d) st'"
  proof (rule Suc.IH [OF r j])
    fix t s y assume "Suc k \<le> t" "t < Suc k + d" "J t s" "body t s = Some y"
    then show "\<exists>s'. y = Inr s' \<and> J (Suc t) s'"
      using Suc.prems(3) [of t s y] by simp
  qed
  then show ?case by simp
qed

lemma sarsa_step_safe:
  fixes env :: "'a env" and v :: "'a sarsa_vars"
  assumes ev: "indexed_env env"
    and sh: "table_shape (nat (nS env)) (nat (nA env)) (Q_s v)"
    and s: "0 \<le> state_s v" "state_s v < nS env"
    and a: "0 \<le> action_s v" "action_s v < nA env"
    and t: "length (sum_rewards_s v) = Suc t"
  shows "\<exists>v' d. sarsa_step env alpha gamma epsilon t v = Inr (v', d) \<and>
           table_shape (nat (nS env)) (nat (nA env)) (Q_s v') \<and>
           0 \<le> state_s v' \<and> state_s v' < nS env \<and> 0 \<le> action_s v' \<and> action_s v' < nA env \<and>
           length (sum_rewards_s v') = Suc t"
proof -
  note sz = indexed_env_sizes [OF ev]
  obtain s' r d e' where st: "step env (env_s v) (action_s v) = ((s', r, d), e')"
    by (cases "step env (env_s v) (action_s v)") auto
  from indexed_env_step [OF ev a st] have s': "0 \<le> s'" "s' < nS env" by auto
  have m: "0 < nat (nA env)" using sz by simp
  have si: "state_s v < int (nat (nS env))" "action_s v < int (nat (nA env))" "s' < int (nat (nS env))"
    using s a s' by simp_all
  from egreedy_policy_shape [OF sh m s'(1) si(3), of epsilon "rng_s v"]
  obtain a' g' where eg: "egreedy_policy s' (Q_s v) epsilon (rng_s v) = Inr (a', g')"
    and a': "0 \<le> a'" "a' < int (nat (nA env))" by blast
  have tl: "t < length (sum_rewards_s v)" using t by simp
  note stp = sarsa_step_in_range [OF sh s(1) si(1) a(1) si(2) st s'(1) si(3) eg a' tl,
      of alpha gamma]
  show ?thesis
    using stp sh s' a' t sz
    by (simp add: table_shape_update)
qed

lemma qlearning_step_safe:
  fixes env :: "'a env" and v :: "'a qlearning_vars"
  assumes ev: "indexed_env env"
    and sh: "table_shape (nat (nS env)) (nat (nA env)) (Q_q v)"
    and s: "0 \<le> state_q v" "state_q v < nS env"
    and t: "length (sum_rewards_q v) = Suc t"
  shows "\<exists>v' d. qlearning_step env alpha gamma epsilon t v = Inr (v', d) \<and>
           table_shape (nat (nS env)) (nat (nA env)) (Q_q v') \<and>
           0 \<le> state_q v' \<and> state_q v' < nS env \<and>
           length (sum_rewards_q v') = Suc t"
proof -
  note sz = indexed_env_sizes [OF ev]
  have m: "0 < nat (nA env)" using sz by simp
  have si: "state_q v < int (nat (nS env))" using s by simp
  from egreedy_policy_shape [OF sh m s(1) si, of epsilon "rng_q v"]
  obtain a g' where eg: "egreedy_policy (state_q v) (Q_q v) epsilon (rng_q v) = Inr (a, g')"
    and a: "0 \<le> a" "a < int (nat (nA env))" by blast
  have a2: "a < nA env" using a sz by simp
  obtain s' r d e' where st: "step env (env_q v) a = ((s', r, d), e')"
    by (cases "step env (env_q v) a") auto
  from indexed_env_step [OF ev a(1) a2 st] have s': "0 \<le> s'" "s' < nS env" by auto
  have si': "s' < int (nat (nS env))" using s' by simp
  from np_argmax_shape [OF sh m s'(1) si']
  obtain k where k: "np_argmax (Q_q v ! nat s') = Inr k" "k < nat (nA env)" by blast
  have tl: "t < length (sum_rewards_q v)" using t by simp
  note stp = qlearning_step_in_range [OF sh s(1) si eg a st s'(1) si' k tl, of alpha gamma]
  show ?thesis
    using stp sh s' t
    by (simp add: table_shape_update)
qed

lemma double_qlearning_step_safe:
  fixes env :: "'a env" and v :: "'a double_vars"
  assumes ev: "indexed_env env"
    and sh1: "table_shape (nat (nS env)) (nat (nA env)) (Q1_d v)"
    and sh2: "table_shape (nat (nS env)) (nat (nA env)) (Q2_d v)"
    and s: "0 \<le> state_d v" "state_d v < nS env"
    and t: "length (sum_rewards_d v) = Suc t"
  shows "\<exists>v' d. double_qlearning_step env alpha gamma epsilon t v = Inr (v', d) \<and>
           table_shape (nat (nS env)) (nat (nA env)) (Q1_d v') \<and>
           table_shape (nat (nS env)) (nat (nA env)) (Q2_d v') \<and>
           0 \<le> state_d v' \<and> state_d v' < nS env \<and>
           length (sum_rewards_d v') = Suc t"
proof -
  note sz = indexed_env_sizes [OF ev]
  have m: "0 < nat (nA env)" using sz by simp
  have si: "state_d v < int (nat (nS env))" using s by simp
  from egreedy_policy_shape [OF table_add_shape [OF sh1 sh2] m s(1) si, of epsilon "rng_d v"]
  obtain a g1 where eg: "egreedy_policy (state_d v) (table_add (Q1_d v) (Q2_d v)) epsilon (rng_d v)
      = Inr (a, g1)"
    and a: "0 \<le> a" "a < int (nat (nA env))" by blast
  have a2: "a < nA env" using a sz by simp
  obtain s' r d e' where st: "step env (env_d v) a = ((s', r, d), e')"
    by (cases "step env (env_d v) a") auto
  from indexed_env_step [OF ev a(1) a2 st] have s': "0 \<le> s'" "s' < nS env" by auto
  have si': "s' < int (nat (nS env))" using s' by simp
  have tl: "t < length (sum_rewards_d v)" using t by simp
  show ?thesis
  proof (cases "fst (rand g1) < 1/2")
    case True
    from np_argmax_shape [OF sh1 m s'(1) si']
    obtain k where k: "np_argmax (Q1_d v ! nat s') = Inr k" "k < nat (nA env)" by blast
    note stp = double_qlearning_step_first [OF sh1 sh2 s(1) si eg a st s'(1) si' True k tl,
        of alpha gamma]
    show ?thesis
      using stp sh1 sh2 s' t
      by (simp add: table_shape_update)
  next
    case False
    from np_argmax_shape [OF sh2 m s'(1) si']
    obtain k where k: "np_argmax (Q2_d v ! nat s') = Inr k" "k < nat (nA env)" by blast
    note stp = double_qlearning_step_second [OF sh1 sh2 s(1) si eg a st s'(1) si' False k tl,
        of alpha gamma]
    show ?thesis
      using stp sh1 sh2 s' t
      by (simp add: table_shape_update)
  qed
qed

lemma sarsa_episode_safe:
  fixes env :: "'a env" and v :: "'a sarsa_vars"
  assumes ev: "indexed_env env"
    and run: "sarsa_episode env alpha gamma epsilon t v = Some y"
    and sh: "table_shape (nat (nS env)) (nat (nA env)) (Q_s v)"
    and t: "length (sum_rewards_s v) = t"
  shows "\<exists>v'. y = Inr v' \<and> table_shape (nat (nS env)) (nat (nA env)) (Q_s v') \<and>
           length (sum_rewards_s v') = Suc t"
proof -
  note sz = indexed_env_sizes [OF ev]
  obtain s0 e1 where r: "reset env (env_s v) = (s0, e1)" by (cases "reset env (env_s v)") auto
  from indexed_env_reset [OF ev r] have s0: "0 \<le> s0" "s0 < nS env" by auto
  have m: "0 < nat (nA env)" using sz by simp
  have si: "s0 < int (nat (nS env))" using s0 by simp
  from egreedy_policy_shape [OF sh m s0(1) si, of epsilon "rng_s v"]
  obtain a0 g1 where eg: "egreedy_policy s0 (Q_s v) epsilon (rng_s v) = Inr (a0, g1)"
    and a0: "0 \<le> a0" "a0 < int (nat (nA env))" by blast
  let ?v0 = "v\<lparr>env_s := e1, rng_s := g1, state_s := s0, action_s := a0,
               sum_rewards_s := sum_rewards_s v @ [0]\<rparr>"
  let ?I = "\<lambda>v :: 'a sarsa_vars. table_shape (nat (nS env)) (nat (nA env)) (Q_s v) \<and>
           0 \<le> state_s v \<and> state_s v < nS env \<and> 0 \<le> action_s v \<and> action_s v < nA env \<and>
           length (sum_rewards_s v) = Suc t"
  have i0: "?I ?v0" using sh s0 a0 t sz by simp
  from run r eg have w: "while_true (sarsa_step env alpha gamma epsilon t) ?v0 = Some y"
    by (simp add: sarsa_episode_def)
  have "\<exists>v'. y = Inr v' \<and> ?I v'"
  proof (rule while_true_safe [where I = ?I, OF w i0])
    fix w assume "?I w"
    with sarsa_step_safe [OF ev, of w t alpha gamma epsilon]
    show "\<exists>s' d. sarsa_step env alpha gamma epsilon t w = Inr (s', d) \<and> ?I s'"
      by blast
  qed
  then show ?thesis by blast
qed

lemma qlearning_episode_safe:
  fixes env :: "'a env" and v :: "'a qlearning_vars"
  assumes ev: "indexed_env env"
    and run: "qlearning_episode env alpha gamma epsilon t v = Some y"
    and sh: "table_shape (nat (nS env)) (nat (nA env)) (Q_q v)"
    and t: "length (sum_rewards_q v) = t"
  shows "\<exists>v'. y = Inr v' \<and> table_shape (nat (nS env)) (nat (nA env)) (Q_q v') \<and>
           length (sum_rewards_q v') = Suc t"
proof -
  obtain s0 e1 where r: "reset env (env_q v) = (s0, e1)" by (cases "reset env (env_q v)") auto
  from indexed_env_reset [OF ev r] have s0: "0 \<le> s0" "s0 < nS env" by auto
  let ?v0 = "v\<lparr>env_q := e1, state_q := s0, sum_rewards_q := sum_rewards_q v @ [0]\<rparr>"
  let ?I = "\<lambda>v :: 'a qlearning_vars. table_shape (nat (nS env)) (nat (nA env)) (Q_q v) \<and>
           0 \<le> state_q v \<and> state_q v < nS env \<and> length (sum_rewards_q v) = Suc t"
  have i0: "?I ?v0" using sh s0 t by simp
  from run r have w: "while_true (qlearning_step env alpha gamma epsilon t) ?v0 = Some y"
    by (simp add: qlearning_episode_def)
  have "\<exists>v'. y = Inr v' \<and> ?I v'"
  proof (rule while_true_safe [where I = ?I, OF w i0])
    fix w assume "?I w"
    with qlearning_step_safe [OF ev, of w t alpha gamma epsilon]
    show "\<exists>s' d. qlearning_step env alpha gamma epsilon t w = Inr (s', d) \<and> ?I s'"
      by blast
  qed
  then show ?thesis by blast
qed

lemma double_qlearning_episode_safe:
  fixes env :: "'a env" and v :: "'a double_vars"
  assumes ev: "indexed_env env"
    and run: "double_qlearning_episode env alpha gamma epsilon t v = Some y"
    and sh1: "table_shape (nat (nS env)) (nat (nA env)) (Q1_d v)"
    and sh2: "table_shape (nat (nS env)) (nat (nA env)) (Q2_d v)"
    and t: "length (sum_rewards_d v) = t"
  shows "\<exists>v'. y = Inr v' \<and> table_shape (nat (nS env)) (nat (nA env)) (Q1_d v') \<and>
           table_shape (nat (nS env)) (nat (nA env)) (Q2_d v') \<and>
           length (sum_rewards_d v') = Suc t"
proof -
  obtain s0 e1 where r: "reset env (env_d v) = (s0, e1)" by (cases "reset env (env_d v)") auto
  from indexed_env_reset [OF ev r] have s0: "0 \<le> s0" "s0 < nS env" by auto
  let ?v0 = "v\<lparr>env_d := e1, state_d := s0, sum_rewards_d := sum_rewards_d v @ [0]\<rparr>"
  let ?I = "\<lambda>v :: 'a double_vars. table_shape (nat (nS env)) (nat (nA env)) (Q1_d v) \<and>
           table_shape (nat (nS env)) (nat (nA env)) (Q2_d v) \<and>
           0 \<le> state_d v \<and> state_d v < nS env \<and> length (sum_rewards_d v) = Suc t"
  have i0: "?I ?v0" using sh1 sh2 s0 t by simp
  from run r have w: "while_true (double_qlearning_step env alpha gamma epsilon t) ?v0 = Some y"
    by (simp add: double_qlearning_episode_def)
  have "\<exists>v'. y = Inr v' \<and> ?I v'"
  proof (rule while_true_safe [where I = ?I, OF w i0])
    fix w assume "?I w"
    with double_qlearning_step_safe [OF ev, of w t alpha gamma epsilon]
    show "\<exists>s' d. double_qlearning_step env alpha gamma epsilon t w = Inr (s', d) \<and> ?I s'"
      by blast
  qed
  then show ?thesis by blast
qed

lemma sarsa_never_raises:
  fixes env :: "'a env"
  assumes ev: "indexed_env env"
  shows "sarsa env e g alpha gamma epsilon num_episodes \<noteq> Some (Inl err)"
proof
  assume bad: "sarsa env e g alpha gamma epsilon num_episodes = Some (Inl err)"
  let ?J = "\<lambda>t (v :: 'a sarsa_vars). table_shape (nat (nS env)) (nat (nA env)) (Q_s v) \<and>
             length (sum_rewards_s v) = t"
  let ?v0 = "\<lparr>env_s = e, rng_s = g, Q_s = replicate (nat (nS env)) (replicate (nat (nA env)) 0),
             state_s = 0, action_s = 0, sum_rewards_s = []\<rparr>"
  from bad have f: "for_each (sarsa_episode env alpha gamma epsilon) [0..<0 + nat num_episodes] ?v0
      = Some (Inl err)"
    by (auto simp: sarsa_def zero_value_indexed [OF ev] split: option.splits sum.splits)
  have j0: "?J 0 ?v0" by (simp add: table_shape_zero)
  have "\<exists>st'. (Inl err :: error + 'a sarsa_vars) = Inr st' \<and> ?J (0 + nat num_episodes) st'"
  proof (rule for_each_upt_safe [where J = ?J, OF f j0])
    fix t w y assume "?J t w" "sarsa_episode env alpha gamma epsilon t w = Some y"
    with sarsa_episode_safe [OF ev, of alpha gamma epsilon t w y]
    show "\<exists>s'. y = Inr s' \<and> ?J (Suc t) s'" by blast
  qed
  then show False by simp
qed

lemma qlearning_never_raises:
  fixes env :: "'a env"
  assumes ev: "indexed_env env"
  shows "qlearning env e g alpha gamma epsilon num_episodes \<noteq> Some (Inl err)"
proof
  assume bad: "qlearning env e g alpha gamma epsilon num_episodes = Some (Inl err)"
  let ?J = "\<lambda>t (v :: 'a qlearning_vars). table_shape (nat (nS env)) (nat (nA env)) (Q_q v) \<and>
             length (sum_rewards_q v) = t"
  let ?v0 = "\<lparr>env_q = e, rng_q = g, Q_q = replicate (nat (nS env)) (replicate (nat (nA env)) 0),
             state_q = 0, sum_rewards_q = []\<rparr>"
  from bad have f: "for_each (qlearning_episode env alpha gamma epsilon) [0..<0 + nat num_episodes] ?v0
      = Some (Inl err)"
    by (auto simp: qlearning_def zero_value_indexed [OF ev] split: option.splits sum.splits)
  have j0: "?J 0 ?v0" by (simp add: table_shape_zero)
  have "\<exists>st'. (Inl err :: error + 'a qlearning_vars) = Inr st' \<and> ?J (0 + nat num_episodes) st'"
  proof (rule for_each_upt_safe [where J = ?J, OF f j0])
    fix t w y assume "?J t w" "qlearning_episode env alpha gamma epsilon t w = Some y"
    with qlearning_episode_safe [OF ev, of alpha gamma epsilon t w y]
    show "\<exists>s'. y = Inr s' \<and> ?J (Suc t) s'" by blast
  qed
  then show False by simp
qed

lemma double_qlearning_never_raises:
  fixes env :: "'a env"
  assumes ev: "indexed_env env"
  shows "double_qlearning env e g alpha gamma epsilon num_episodes \<noteq> Some (Inl err)"
proof
  assume bad: "double_qlearning env e g alpha gamma epsilon num_episodes = Some (Inl err)"
  let ?J = "\<lambda>t (v :: 'a double_vars). table_shape (nat (nS env)) (nat (nA env)) (Q1_d v) \<and>
             table_shape (nat (nS env)) (nat (nA env)) (Q2_d v) \<and>
             length (sum_rewards_d v) = t"
  let ?Z = "replicate (nat (nS env)) (replicate (nat (nA env)) (0::real))"
  let ?v0 = "\<lparr>env_d = e, rng_d = g, Q1_d = ?Z, Q2_d = ?Z, state_d = 0, sum_rewards_d = []\<rparr>"
  from bad have f: "for_each (double_qlearning_episode env alpha gamma epsilon)
      [0..<0 + nat num_episodes] ?v0 = Some (Inl err)"
    by (auto simp: double_qlearning_def zero_value_indexed [OF ev] split: option.splits sum.splits)
  have j0: "?J 0 ?v0" by (simp add: table_shape_zero)
  have "\<exists>st'. (Inl err :: error + 'a double_vars) = Inr st' \<and> ?J (0 + nat num_episodes) st'"
  proof (rule for_each_upt_safe [where J = ?J, OF f j0])
    fix t w y assume "?J t w" "double_qlearning_episode env alpha gamma epsilon t w = Some y"
    with double_qlearning_episode_safe [OF ev, of alpha gamma epsilon t w y]
    show "\<exists>s'. y = Inr s' \<and> ?J (Suc t) s'" by blast
  qed
  then show False by simp
qed

lemma stay_env_indexed: "indexed_env stay_env"
  by (simp add: indexed_env_def stay_env_def)

text \<open>
  C1 does not hold of the code: none of the three functions looks at alpha, gamma,
  epsilon or the episode count before it trains. Here alpha = 2 is accepted, one episode
  is run, and the table comes back with the entry 2.
\<close>

theorem invalid_alpha_not_rejected:
  "sarsa two_state_env 0 (const_rng (1/2) 0) 2 1 0 1 = Some (Inr ([[2, 0], [0, 0]], [1]))"
proof -
  have "\<not> floats (const_rng (1/2) 0) (consumed (const_rng (1/2) 0)) < (0::real)"
    "\<not> floats (const_rng (1/2) 0) (Suc (consumed (const_rng (1/2) 0))) < (0::real)"
    by (simp_all add: const_rng_def)
  from sarsa_scenario [OF two_state_env_scenario this] show ?thesis .
qed

text \<open>
  C1, as the code has it: no call is rejected for its configuration, whatever real
  numbers alpha, gamma and epsilon and whatever integer the episode count are.
  On every environment that keeps its contract (\<open>episodic_env\<close>) each of the three
  functions returns a table of shape \<open>(nS, nA)\<close> and a reward trace with one entry per
  episode asked for (none for a non-positive count). On every environment that returns
  states in range (\<open>indexed_env\<close>), whether or not its episodes end, none of the three
  raises. With a non-positive episode count and non-negative sizes each returns the zero
  table and the empty trace. And the values are used as given: on the two-state scenario
  one episode whose draws do not fall below epsilon leaves \<open>table[0,0] = alpha\<close> for
  \<open>sarsa\<close> and \<open>qlearning\<close> and \<open>alpha / 2\<close> for \<open>double_qlearning\<close>.
\<close>

theorem no_configuration_check:
  fixes env :: "'a env"
  shows
  "(episodic_env env fuel \<longrightarrow>
      (\<exists>Q tr. sarsa env e g alpha gamma epsilon num_episodes = Some (Inr (Q, tr)) \<and>
         table_shape (nat (nS env)) (nat (nA env)) Q \<and> length tr = nat num_episodes) \<and>
      (\<exists>Q tr. qlearning env e g alpha gamma epsilon num_episodes = Some (Inr (Q, tr)) \<and>
         table_shape (nat (nS env)) (nat (nA env)) Q \<and> length tr = nat num_episodes) \<and>
      (\<exists>Q tr. double_qlearning env e g alpha gamma epsilon num_episodes = Some (Inr (Q, tr)) \<and>
         table_shape (nat (nS env)) (nat (nA env)) Q \<and> length tr = nat num_episodes)) \<and>
   (indexed_env env \<longrightarrow>
      sarsa env e g alpha gamma epsilon num_episodes \<noteq> Some (Inl err) \<and>
      qlearning env e g alpha gamma epsilon num_episodes \<noteq> Some (Inl err) \<and>
      double_qlearning env e g alpha gamma epsilon num_episodes \<noteq> Some (Inl err)) \<and>
   (num_episodes \<le> 0 \<and> 0 \<le> nS env \<and> 0 \<le> nA env \<longrightarrow>
      sarsa env e g alpha gamma epsilon num_episodes
        = Some (Inr (replicate (nat (nS env)) (replicate (nat (nA env)) 0), [])) \<and>
      qlearning env e g alpha gamma epsilon num_episodes
        = Some (Inr (replicate (nat (nS env)) (replicate (nat (nA env)) 0), [])) \<and>
      double_qlearning env e g alpha gamma epsilon num_episodes
        = Some (Inr (replicate (nat (nS env)) (replicate (nat (nA env)) 0), []))) \<and>
   (scenario env e \<and> \<not> floats g (consumed g) < epsilon \<and> \<not> floats g (Suc (consumed g)) < epsilon \<longrightarrow>
      sarsa env e g alpha gamma epsilon 1 = Some (Inr ([[alpha, 0], [0, 0]], [1])) \<and>
      qlearning env e g alpha gamma epsilon 1 = Some (Inr ([[alpha, 0], [0, 0]], [1])) \<and>
      double_qlearning env e g alpha gamma epsilon 1 = Some (Inr ([[alpha / 2, 0], [0, 0]], [1])))"
proof -
  have A: "(\<exists>Q tr. sarsa env e g alpha gamma epsilon num_episodes = Some (Inr (Q, tr)) \<and>
         table_shape (nat (nS env)) (nat (nA env)) Q \<and> length tr = nat num_episodes) \<and>
      (\<exists>Q tr. qlearning env e g alpha gamma epsilon num_episodes = Some (Inr (Q, tr)) \<and>
         table_shape (nat (nS env)) (nat (nA env)) Q \<and> length tr = nat num_episodes) \<and>
      (\<exists>Q tr. double_qlearning env e g alpha gamma epsilon num_episodes = Some (Inr (Q, tr)) \<and>
         table_shape (nat (nS env)) (nat (nA env)) Q \<and> length tr = nat num_episodes)"
    if "episodic_env env fuel"
    using sarsa_total [OF that, of e g alpha gamma epsilon num_episodes]
      qlearning_total [OF that, of e g alpha gamma epsilon num_episodes]
      double_qlearning_total [OF that, of e g alpha gamma epsilon num_episodes]
    by simp
  have B: "sarsa env e g alpha gamma epsilon num_episodes \<noteq> Some (Inl err) \<and>
      qlearning env e g alpha gamma epsilon num_episodes \<noteq> Some (Inl err) \<and>
      double_qlearning env e g alpha gamma epsilon num_episodes \<noteq> Some (Inl err)"
    if "indexed_env env"
    using sarsa_never_raises [OF that] qlearning_never_raises [OF that]
      double_qlearning_never_raises [OF that]
    by simp
  show ?thesis
    using A B no_episodes [of num_episodes env e g alpha gamma epsilon]
      sarsa_scenario [of env e g epsilon alpha gamma]
      qlearning_scenario [of env e g epsilon alpha gamma]
      double_qlearning_scenario [of env e g epsilon alpha gamma]
    by blast
qed

theorem no_configuration_check_witness:
  "(\<exists>Q tr. sarsa chain_env 0 (const_rng (1/2) 1) 2 (-3) 5 3 = Some (Inr (Q, tr)) \<and>
      table_shape 3 2 Q \<and> length tr = 3) \<and>
   (\<exists>Q tr. qlearning chain_env 0 (const_rng (1/2) 1) 2 (-3) 5 3 = Some (Inr (Q, tr)) \<and>
      table_shape 3 2 Q \<and> length tr = 3) \<and>
   (\<exists>Q tr. double_qlearning chain_env 0 (const_rng (1/2) 1) 2 (-3) 5 3 = Some (Inr (Q, tr)) \<and>
      table_shape 3 2 Q \<and> length tr = 3) \<and>
   sarsa stay_env () (const_rng (1/2) 0) 2 (-3) 5 3 \<noteq> Some (Inl ValueError) \<and>
   qlearning stay_env () (const_rng (1/2) 0) 2 (-3) 5 3 \<noteq> Some (Inl ValueError) \<and>
   double_qlearning stay_env () (const_rng (1/2) 0) 2 (-3) 5 3 \<noteq> Some (Inl ValueError) \<and>
   sarsa two_state_env 0 (const_rng (1/2) 0) 2 (-3) (-1) (-5) = Some (Inr ([[0, 0], [0, 0]], []))
   \<and> qlearning two_state_env 0 (const_rng (1/2) 0) 2 (-3) (-1) (-5) = Some (Inr ([[0, 0], [0, 0]], []))
   \<and> double_qlearning two_state_env 0 (const_rng (1/2) 0) 2 (-3) (-1) (-5)
       = Some (Inr ([[0, 0], [0, 0]], []))
   \<and> sarsa two_state_env 0 (const_rng (1/2) 0) 2 (-3) (-1) 1 = Some (Inr ([[2, 0], [0, 0]], [1]))
   \<and> qlearning two_state_env 0 (const_rng (1/2) 0) 2 (-3) (-1) 1 = Some (Inr ([[2, 0], [0, 0]], [1]))
   \<and> double_qlearning two_state_env 0 (const_rng (1/2) 0) 2 (-3) (-1) 1
       = Some (Inr ([[1, 0], [0, 0]], [1]))"
proof -
  have sz: "nat (nS chain_env) = 3" "nat (nA chain_env) = 2" "nat (3::int) = 3"
    by (simp_all add: chain_env_def)
  note c = no_configuration_check [where env = chain_env and fuel = "\<lambda>e. 2 - e" and e = 0
      and g = "const_rng (1/2) 1" and alpha = 2 and gamma = "-3" and epsilon = 5
      and num_episodes = 3]
  from c [THEN conjunct1, rule_format, OF chain_env_episodic]
  have P1: "(\<exists>Q tr. sarsa chain_env 0 (const_rng (1/2) 1) 2 (-3) 5 3 = Some (Inr (Q, tr)) \<and>
      table_shape 3 2 Q \<and> length tr = 3) \<and>
   (\<exists>Q tr. qlearning chain_env 0 (const_rng (1/2) 1) 2 (-3) 5 3 = Some (Inr (Q, tr)) \<and>
      table_shape 3 2 Q \<and> length tr = 3) \<and>
   (\<exists>Q tr. double_qlearning chain_env 0 (const_rng (1/2) 1) 2 (-3) 5 3 = Some (Inr (Q, tr)) \<and>
      table_shape 3 2 Q \<and> length tr = 3)"
    unfolding sz by simp
  note s = no_configuration_check [where env = stay_env and e = "()"
      and g = "const_rng (1/2) 0" and alpha = 2 and gamma = "-3" and epsilon = 5
      and num_episodes = 3 and err = ValueError]
  from s [THEN conjunct2, THEN conjunct1, rule_format, OF stay_env_indexed]
  have P2: "sarsa stay_env () (const_rng (1/2) 0) 2 (-3) 5 3 \<noteq> Some (Inl ValueError) \<and>
   qlearning stay_env () (const_rng (1/2) 0) 2 (-3) 5 3 \<noteq> Some (Inl ValueError) \<and>
   double_qlearning stay_env () (const_rng (1/2) 0) 2 (-3) 5 3 \<noteq> Some (Inl ValueError)" .
  have a: "(-5::int) \<le> 0 \<and> 0 \<le> nS two_state_env \<and> 0 \<le> nA two_state_env"
    by (simp add: two_state_env_def)
  have b: "scenario two_state_env 0 \<and>
      \<not> floats (const_rng (1/2) 0) (consumed (const_rng (1/2) 0)) < (-1::real) \<and>
      \<not> floats (const_rng (1/2) 0) (Suc (consumed (const_rng (1/2) 0))) < (-1::real)"
    by (simp add: two_state_env_scenario const_rng_def)
  have z: "replicate (nat (nS two_state_env)) (replicate (nat (nA two_state_env)) (0::real))
             = [[0, 0], [0, 0]]"
    by (simp add: two_state_env_def numeral_2_eq_2)
  note t = no_configuration_check [where env = two_state_env and e = 0
      and g = "const_rng (1/2) 0" and alpha = 2 and gamma = "-3" and epsilon = "-1"
      and num_episodes = "-5"]
  from t [THEN conjunct2, THEN conjunct2, THEN conjunct1, rule_format, OF a] z
  have P3: "sarsa two_state_env 0 (const_rng (1/2) 0) 2 (-3) (-1) (-5) = Some (Inr ([[0, 0], [0, 0]], []))
   \<and> qlearning two_state_env 0 (const_rng (1/2) 0) 2 (-3) (-1) (-5) = Some (Inr ([[0, 0], [0, 0]], []))
   \<and> double_qlearning two_state_env 0 (const_rng (1/2) 0) 2 (-3) (-1) (-5)
       = Some (Inr ([[0, 0], [0, 0]], []))"
    by simp
  from t [THEN conjunct2, THEN conjunct2, THEN conjunct2, rule_format, OF b]
  have P4: "sarsa two_state_env 0 (const_rng (1/2) 0) 2 (-3) (-1) 1 = Some (Inr ([[2, 0], [0, 0]], [1]))
   \<and> qlearning two_state_env 0 (const_rng (1/2) 0) 2 (-3) (-1) 1 = Some (Inr ([[2, 0], [0, 0]], [1]))
   \<and> double_qlearning two_state_env 0 (const_rng (1/2) 0) 2 (-3) (-1) 1
       = Some (Inr ([[1, 0], [0, 0]], [1]))"
    by simp
  from P1 P2 P3 P4 show ?thesis by simp
qed

end
